theory Spec2Isabelle
  imports Main "HOL-Library.Sublist" "HOL-Library.Multiset"
begin

section \<open>Rush: the generate and install actions\<close>

text \<open>
  A shallow embedding of \<^verbatim>\<open>rush/rush/src/actions/GenerateAction.ts\<close> and
  \<^verbatim>\<open>rush/rush/src/actions/InstallAction.ts\<close>. Private methods keep their names
  without the leading underscore. The shrinkwrap file is read through its lookups; the
  object \<^verbatim>\<open>tempModules\<close> of the install action, which the code fills and reads by
  name, is modelled with its own properties, its prototype and the order of its keys; a
  \<^verbatim>\<open>Map\<close> read with \<^verbatim>\<open>get\<close> is a partial function, a thrown \<^verbatim>\<open>Error\<close> is the
  left summand of a result.
\<close>

subsection \<open>Values read from JSON files\<close>

datatype json =
    JNull
  | JBool bool
  | JNum int
  | JStr string
  | JArr "json list"
  | JObj "(string \<times> json) list"

text \<open>\<^verbatim>\<open>IPackageJson\<close>: a parsed \<^verbatim>\<open>package.json\<close>, an object with a string
  \<^verbatim>\<open>name\<close> and an optional \<^verbatim>\<open>dependencies\<close> object of strings.\<close>

type_synonym IPackageJson = json

definition property :: "json \<Rightarrow> string \<Rightarrow> json option" where
  "property j k = (case j of JObj kvs \<Rightarrow> map_of kvs k | _ \<Rightarrow> None)"

text \<open>\<^verbatim>\<open>contents.name\<close>; \<open>None\<close> when the value is not of the declared type.\<close>

definition name_of :: "IPackageJson \<Rightarrow> string option" where
  "name_of j = (case property j ''name'' of Some (JStr s) \<Rightarrow> Some s | _ \<Rightarrow> None)"

fun string_values :: "(string \<times> json) list \<Rightarrow> (string \<times> string) list option" where
  "string_values [] = Some []"
| "string_values ((k, JStr s) # kvs) =
     (case string_values kvs of None \<Rightarrow> None | Some r \<Rightarrow> Some ((k, s) # r))"
| "string_values _ = None"

text \<open>\<^verbatim>\<open>project.dependencies\<close>: the outer \<open>None\<close> is \<^verbatim>\<open>undefined\<close>, the inner
  \<open>None\<close> a value that is not an object of strings.\<close>

definition dependencies_of :: "IPackageJson \<Rightarrow> (string \<times> string) list option option" where
  "dependencies_of j =
     (case property j ''dependencies'' of
        None \<Rightarrow> None
      | Some (JObj kvs) \<Rightarrow> Some (string_values kvs)
      | Some _ \<Rightarrow> Some None)"

subsection \<open>Errors\<close>

datatype error =
    TypeError
  | NotAPackageJson string
  | ToolMissing string
  | CommandFailed "string list" int
  | NoAttempts
  | ENOENT string
  | ConfigError string
  | OrphanedTempModule string
  | MissingTempModule string
  | Outdated string

subsection \<open>The shrinkwrap file and the configuration\<close>

datatype IShrinkwrapDependency =
  ShrinkwrapDependency
    (sd_version: string)
    (sd_from: string)
    (sd_resolved: string)
    (sd_dependencies: "(string \<Rightarrow> IShrinkwrapDependency option) option")

record IShrinkwrapFile =
  sf_name :: string
  sf_version :: string
  sf_dependencies :: "string \<Rightarrow> IShrinkwrapDependency option"

record RushConfigurationProject =
  packageName :: string
  tempProjectName :: string

record RushConfiguration =
  commonFolder :: string
  npmToolFilename :: string
  cacheFolder :: "string option"
  tmpFolder :: "string option"
  projects :: "RushConfigurationProject list"
  projectsByName :: "string \<Rightarrow> RushConfigurationProject option"

subsection \<open>GenerateAction: is every dependency in the shrinkwrap?\<close>

text \<open>
  \<^verbatim>\<open>_canFindDependencyInShrinkwrap\<close> (lines 204-222). \<open>satisfies\<close> is
  \<^verbatim>\<open>semver.satisfies\<close> of the semver package, taken as a parameter. A shrinkwrap entry
  is an object, so it is truthy exactly when it is defined.
\<close>

definition canFindDependencyInShrinkwrap ::
  "(string \<Rightarrow> string \<Rightarrow> bool) \<Rightarrow> IShrinkwrapFile \<Rightarrow> string \<Rightarrow> string \<Rightarrow> string \<Rightarrow> bool" where
  "canFindDependencyInShrinkwrap satisfies shrinkwrap dependency version rushPackageName =
     (let shrinkwrapDependency0 =
            (case sf_dependencies shrinkwrap rushPackageName of
               None \<Rightarrow> None
             | Some pkg \<Rightarrow>
                 (case sd_dependencies pkg of
                    None \<Rightarrow> None
                  | Some ds \<Rightarrow> ds dependency));
          shrinkwrapDependency =
            (case shrinkwrapDependency0 of
               Some d \<Rightarrow> Some d
             | None \<Rightarrow> sf_dependencies shrinkwrap dependency)
      in case shrinkwrapDependency of
           None \<Rightarrow> False
         | Some d \<Rightarrow> satisfies (sd_version d) version)"

text \<open>
  The inner \<^verbatim>\<open>forEach\<close> of \<^verbatim>\<open>_shouldDeleteNodeModules\<close> (lines 184-192): does some
  key of \<^verbatim>\<open>project.dependencies\<close> fail the lookup?
\<close>

definition missingDependency ::
  "(string \<Rightarrow> string \<Rightarrow> bool) \<Rightarrow> IShrinkwrapFile \<Rightarrow> string \<Rightarrow> (string \<times> string) list \<Rightarrow> bool" where
  "missingDependency satisfies shrinkwrap tempProjectName' deps =
     list_ex
       (\<lambda>dependency.
          case map_of deps dependency of
            None \<Rightarrow> False
          | Some version \<Rightarrow>
              \<not> canFindDependencyInShrinkwrap satisfies shrinkwrap dependency version tempProjectName')
       (map fst deps)"

text \<open>
  The outer \<^verbatim>\<open>tempModules.forEach\<close> (lines 182-193), with the flag
  \<^verbatim>\<open>hasFoundMissingDependency\<close> as accumulator. Reading \<^verbatim>\<open>tempProjectName\<close> of a
  project that \<^verbatim>\<open>projectsByName\<close> does not have, and \<^verbatim>\<open>Object.keys\<close> of a missing
  \<^verbatim>\<open>dependencies\<close>, throw.
\<close>

fun scanTempModules ::
  "(string \<Rightarrow> string \<Rightarrow> bool) \<Rightarrow> RushConfiguration \<Rightarrow> IShrinkwrapFile \<Rightarrow>
     (string \<times> IPackageJson) list \<Rightarrow> bool \<Rightarrow> error + bool" where
  "scanTempModules satisfies cfg shrinkwrap [] hasFoundMissingDependency =
     Inr hasFoundMissingDependency"
| "scanTempModules satisfies cfg shrinkwrap ((projectName, project) # rest) hasFoundMissingDependency =
     (case projectsByName cfg projectName of
        None \<Rightarrow> Inl TypeError
      | Some rushProject \<Rightarrow>
          (case dependencies_of project of
             None \<Rightarrow> Inl TypeError
           | Some None \<Rightarrow> Inl (NotAPackageJson projectName)
           | Some (Some deps) \<Rightarrow>
               scanTempModules satisfies cfg shrinkwrap rest
                 (hasFoundMissingDependency \<or>
                  missingDependency satisfies shrinkwrap (tempProjectName rushProject) deps)))"

text \<open>
  \<^verbatim>\<open>_shouldDeleteNodeModules\<close> (lines 163-202). The third argument is the parsed
  \<^verbatim>\<open>common/npm-shrinkwrap.json\<close>, \<open>None\<close> when the file does not exist. The result
  \<open>True\<close> is the decision to delete \<^verbatim>\<open>node_modules\<close> (a full reinstall), \<open>False\<close>
  the fast mode.
\<close>

definition shouldDeleteNodeModules ::
  "(string \<Rightarrow> string \<Rightarrow> bool) \<Rightarrow> RushConfiguration \<Rightarrow> IShrinkwrapFile option \<Rightarrow>
     (string \<times> IPackageJson) list \<Rightarrow> error + bool" where
  "shouldDeleteNodeModules satisfies cfg shrinkwrapFile tempModules =
     (case shrinkwrapFile of
        None \<Rightarrow> Inr True
      | Some shrinkwrap \<Rightarrow> scanTempModules satisfies cfg shrinkwrap tempModules False)"







subsection \<open>The world outside the process\<close>

text \<open>
  The file system maps a path to its node, if it exists. The installer is judged by its
  exit status only: \<open>exit_status w args n\<close> is the status of the \<open>n\<close>-th run
  with the arguments \<open>args\<close>, and its own writes below \<^verbatim>\<open>node_modules\<close> are not
  tracked. Every action on the file system and every run of the installer is
  appended to \<open>history\<close> together with the file system in which it started.
\<close>

record node =
  mtime :: nat
  content :: string

datatype event =
    Exec string "string list" string int
  | Unlink string
  | DeletePath string
  | CreateFolder string
  | Recycle string
  | CreateFile string

datatype console_line =
    OutdatedMessage string
  | ExpectedManifest "IPackageJson option"
  | ActualManifest "IPackageJson option"

record world =
  files :: "string \<Rightarrow> node option"
  now :: nat
  exit_status :: "string list \<Rightarrow> nat \<Rightarrow> int"
  invocations :: "string list \<Rightarrow> nat"
  glob_sync :: "string \<Rightarrow> string list"
  require :: "string \<Rightarrow> json"
  history :: "(event \<times> (string \<Rightarrow> node option)) list"
  console :: "console_line list"

type_synonym 'a io = "world \<Rightarrow> (error + 'a) \<times> world"

definition ret :: "'a \<Rightarrow> 'a io" where
  "ret x w = (Inr x, w)"

text \<open>Sequencing: a thrown error skips the rest.\<close>

definition andThen :: "'a io \<Rightarrow> ('a \<Rightarrow> 'b io) \<Rightarrow> 'b io" where
  "andThen m f w = (case m w of (Inl e, w') \<Rightarrow> (Inl e, w') | (Inr x, w') \<Rightarrow> f x w')"

definition whenM :: "(world \<Rightarrow> bool) \<Rightarrow> unit io \<Rightarrow> unit io" where
  "whenM c m w = (if c w then m w else (Inr (), w))"

definition record_event :: "event \<Rightarrow> world \<Rightarrow> world" where
  "record_event e w = w\<lparr>history := history w @ [(e, files w)]\<rparr>"

definition path_join :: "string \<Rightarrow> string \<Rightarrow> string" where
  "path_join a b = a @ ''/'' @ b"

definition under :: "string \<Rightarrow> string \<Rightarrow> bool" where
  "under dir p = (p = dir \<or> prefix (dir @ ''/'') p)"

definition remove_tree :: "string \<Rightarrow> (string \<Rightarrow> node option) \<Rightarrow> (string \<Rightarrow> node option)" where
  "remove_tree dir f = (\<lambda>p. if under dir p then None else f p)"

text \<open>The primitives of \<^verbatim>\<open>fs-extra\<close>.\<close>

definition existsSync :: "string \<Rightarrow> world \<Rightarrow> bool" where
  "existsSync p w = (files w p \<noteq> None)"

definition unlinkSync :: "string \<Rightarrow> unit io" where
  "unlinkSync p w =
     (if existsSync p w
      then (Inr (), (record_event (Unlink p) w)\<lparr>files := (files w)(p := None)\<rparr>)
      else (Inl (ENOENT p), w))"

definition createFileSync :: "string \<Rightarrow> unit io" where
  "createFileSync p w =
     (Inr (),
      (record_event (CreateFile p) w)
        \<lparr>files := (if existsSync p w then files w
                   else (files w)(p \<mapsto> \<lparr>mtime = now w, content = ''''\<rparr>))\<rparr>)"

text \<open>
  Modelled from the spec: \<^verbatim>\<open>Utilities.dangerouslyDeletePath\<close>,
  \<^verbatim>\<open>Utilities.createFolderWithRetry\<close> and \<^verbatim>\<open>AsyncRecycle.recycleDirectory\<close> of
  \<^verbatim>\<open>rush-lib\<close> are not among the sources. Section 1 names them as file-system
  primitives (delete, create) and as the disposal utility for a large directory: the
  path and what lies under it is gone when the call returns.
\<close>

definition dangerouslyDeletePath :: "string \<Rightarrow> unit io" where
  "dangerouslyDeletePath p w =
     (Inr (), (record_event (DeletePath p) w)\<lparr>files := remove_tree p (files w)\<rparr>)"

definition createFolderWithRetry :: "string \<Rightarrow> unit io" where
  "createFolderWithRetry p w =
     (Inr (),
      (record_event (CreateFolder p) w)
        \<lparr>files := (if existsSync p w then files w
                   else (files w)(p \<mapsto> \<lparr>mtime = now w, content = ''''\<rparr>))\<rparr>)"

definition recycleDirectory :: "RushConfiguration \<Rightarrow> string \<Rightarrow> unit io" where
  "recycleDirectory cfg p w =
     (Inr (), (record_event (Recycle p) w)\<lparr>files := remove_tree p (files w)\<rparr>)"

text \<open>
  Modelled from the spec: \<^verbatim>\<open>Utilities.executeCommand\<close> of \<^verbatim>\<open>rush-lib\<close> is not among
  the sources. Section 6: the installer runs as a blocking subprocess in the working
  directory, exit code 0 is success, a nonzero exit code is a failure. One call is one
  run.
\<close>

definition executeCommand :: "string \<Rightarrow> string list \<Rightarrow> string \<Rightarrow> unit io" where
  "executeCommand command args workingDirectory w =
     (let n = invocations w args;
          status = exit_status w args n;
          w' = (record_event (Exec command args workingDirectory status) w)
                 \<lparr>invocations := (invocations w)(args := Suc n)\<rparr>
      in if status = 0 then (Inr (), w') else (Inl (CommandFailed args status), w'))"

text \<open>
  Modelled from the spec: \<^verbatim>\<open>Utilities.executeCommandWithRetry\<close> of \<^verbatim>\<open>rush-lib\<close> is not
  among the sources. Section 4.4: a fixed maximum attempt count, no delay, every nonzero
  exit is retried in the same way until the attempts are exhausted, and a nonzero exit on
  the final attempt is fatal. The specification does not say what zero attempts do; the
  sources only pass \<open>MAX_INSTALL_ATTEMPTS\<close>.
\<close>

primrec executeCommandWithRetry :: "string \<Rightarrow> string list \<Rightarrow> nat \<Rightarrow> string \<Rightarrow> unit io" where
  "executeCommandWithRetry command args 0 workingDirectory = (\<lambda>w. (Inl NoAttempts, w))"
| "executeCommandWithRetry command args (Suc remaining) workingDirectory =
     (\<lambda>w. case executeCommand command args workingDirectory w of
             (Inr u, w') \<Rightarrow> (Inr u, w')
           | (Inl e, w') \<Rightarrow>
               if remaining = 0 then (Inl e, w')
               else executeCommandWithRetry command args remaining workingDirectory w')"

text \<open>
  Modelled from the spec: \<^verbatim>\<open>Utilities.isFileTimestampCurrent\<close> of \<^verbatim>\<open>rush-lib\<close> is not
  among the sources. Section 4.4, steps 2 and 3: an absent marker needs an install; a
  present marker is compared with every input, and an input newer than the marker needs
  an install. An input that does not exist is not current either: the comment at the call
  (InstallAction.ts, lines 280-281) says that a deleted \<^verbatim>\<open>node_modules\<close> folder makes
  \<^verbatim>\<open>isFileTimestampCurrent\<close> redo the install.
\<close>

definition isFileTimestampCurrent :: "string \<Rightarrow> string list \<Rightarrow> world \<Rightarrow> bool" where
  "isFileTimestampCurrent outputFilename inputFilenames w =
     (case files w outputFilename of
        None \<Rightarrow> False
      | Some outputStats \<Rightarrow>
          list_all
            (\<lambda>inputFilename.
               case files w inputFilename of
                 None \<Rightarrow> False
               | Some inputStats \<Rightarrow> \<not> mtime outputStats < mtime inputStats)
            inputFilenames)"

subsection \<open>InstallAction: installing the common modules\<close>

definition MAX_INSTALL_ATTEMPTS :: nat where
  "MAX_INSTALL_ATTEMPTS = 5"

record InstallAction =
  rushConfiguration :: RushConfiguration
  cleanInstall :: bool
  cleanInstallFull :: bool
  tempModulesFiles :: "string list"

text \<open>A configured folder is a string that JavaScript takes as true: defined and not empty.\<close>

definition configured :: "string option \<Rightarrow> string option" where
  "configured folder = (case folder of None \<Rightarrow> None | Some s \<Rightarrow> if s = [] then None else Some s)"

definition commonNodeModulesMarkerFilename :: "RushConfiguration \<Rightarrow> string" where
  "commonNodeModulesMarkerFilename cfg = path_join (commonFolder cfg) ''last-install.flag''"

definition commonNodeModulesFolder :: "RushConfiguration \<Rightarrow> string" where
  "commonNodeModulesFolder cfg = path_join (commonFolder cfg) ''node_modules''"

definition packageJsonFilenames :: "InstallAction \<Rightarrow> string list" where
  "packageJsonFilenames this =
     [path_join (commonFolder (rushConfiguration this)) ''package.json'',
      commonNodeModulesFolder (rushConfiguration this)] @ tempModulesFiles this"

definition cacheCleanArgs :: "string \<Rightarrow> string list" where
  "cacheCleanArgs folder = [''cache'', ''clean'', folder]"

definition npmInstallArgs :: "RushConfiguration \<Rightarrow> string list" where
  "npmInstallArgs cfg =
     [''install'']
     @ (case configured (cacheFolder cfg) of None \<Rightarrow> [] | Some c \<Rightarrow> [''--cache'', c])
     @ (case configured (tmpFolder cfg) of None \<Rightarrow> [] | Some t \<Rightarrow> [''--tmp'', t])"

text \<open>
  Lines 243-290 of \<^verbatim>\<open>_installCommonModules\<close>: the forced clean, or the comparison of the
  timestamps. The result is the pair of \<^verbatim>\<open>needToInstall\<close> and \<^verbatim>\<open>skipPrune\<close>.
\<close>

definition cleanOrCompare :: "InstallAction \<Rightarrow> (bool \<times> bool) io" where
  "cleanOrCompare this =
     (let cfg = rushConfiguration this;
          marker = commonNodeModulesMarkerFilename cfg;
          folder = commonNodeModulesFolder cfg
      in if cleanInstall this \<or> cleanInstallFull this
         then
           andThen (whenM (existsSync marker) (unlinkSync marker)) (\<lambda>_.
           andThen (whenM (existsSync folder)
                      (andThen (dangerouslyDeletePath folder) (\<lambda>_. createFolderWithRetry folder))) (\<lambda>_.
           andThen (case configured (cacheFolder cfg) of
                      Some c \<Rightarrow> executeCommand (npmToolFilename cfg) (cacheCleanArgs c) (commonFolder cfg)
                    | None \<Rightarrow> ret ()) (\<lambda>_.
           ret (True, True))))
         else
           (\<lambda>w. ret (\<not> isFileTimestampCurrent marker (packageJsonFilenames this) w, False) w))"

text \<open>Lines 298-311: the marker is deleted, or its absence means an interrupted install.
  The result is the new \<^verbatim>\<open>skipPrune\<close>.\<close>

definition startInstall :: "RushConfiguration \<Rightarrow> bool \<Rightarrow> bool io" where
  "startInstall cfg skipPrune =
     (let marker = commonNodeModulesMarkerFilename cfg;
          folder = commonNodeModulesFolder cfg
      in (\<lambda>w. if \<not> existsSync marker w
               then andThen (whenM (existsSync folder) (recycleDirectory cfg folder))
                      (\<lambda>_. ret True) w
               else andThen (unlinkSync marker) (\<lambda>_. ret skipPrune) w))"

primrec forEach :: "'a list \<Rightarrow> ('a \<Rightarrow> unit io) \<Rightarrow> unit io" where
  "forEach [] f = ret ()"
| "forEach (x # xs) f = andThen (f x) (\<lambda>_. forEach xs f)"

text \<open>Lines 313-330: \<^verbatim>\<open>npm prune\<close>, then the temp projects are deleted.\<close>

definition pruneTempProjects :: "RushConfiguration \<Rightarrow> unit io" where
  "pruneTempProjects cfg =
     andThen (executeCommandWithRetry (npmToolFilename cfg) [''prune''] MAX_INSTALL_ATTEMPTS
                (commonFolder cfg)) (\<lambda>_.
     (\<lambda>w. forEach (glob_sync w (path_join (commonNodeModulesFolder cfg) ''rush-'' @ ''*''))
             dangerouslyDeletePath w))"

text \<open>Lines 332-350: \<^verbatim>\<open>npm install\<close>, then the marker file is created.\<close>

definition runInstall :: "RushConfiguration \<Rightarrow> unit io" where
  "runInstall cfg =
     andThen (executeCommandWithRetry (npmToolFilename cfg) (npmInstallArgs cfg) MAX_INSTALL_ATTEMPTS
                (commonFolder cfg)) (\<lambda>_.
     createFileSync (commonNodeModulesMarkerFilename cfg))"

text \<open>\<^verbatim>\<open>_installCommonModules\<close> (lines 228-353).\<close>

definition installCommonModules :: "InstallAction \<Rightarrow> unit io" where
  "installCommonModules this =
     (let cfg = rushConfiguration this
      in (\<lambda>w. if \<not> existsSync (npmToolFilename cfg) w
               then (Inl (ToolMissing (npmToolFilename cfg)), w)
               else
                 andThen (cleanOrCompare this) (\<lambda>(needToInstall, skipPrune).
                   if needToInstall
                   then andThen (startInstall cfg skipPrune) (\<lambda>skipPrune'.
                        andThen (if \<not> skipPrune' then pruneTempProjects cfg else ret ()) (\<lambda>_.
                        runInstall cfg))
                   else ret ()) w))"

subsection \<open>GenerateAction: running the installer\<close>



subsection \<open>InstallAction: do the temp modules match?\<close>

text \<open>
  \<^verbatim>\<open>_.isEqual\<close> of lodash on JSON values: arrays are compared element by element,
  objects by the number of their keys and then key by key of the first object, each
  looked up in the second.
\<close>

fun isEqual :: "json \<Rightarrow> json \<Rightarrow> bool"
  and equalObjects :: "(string \<times> json) list \<Rightarrow> (string \<times> json) list \<Rightarrow> bool"
  and equalArrays :: "json list \<Rightarrow> json list \<Rightarrow> bool" where
  "isEqual JNull JNull = True"
| "isEqual (JBool a) (JBool b) = (a = b)"
| "isEqual (JNum a) (JNum b) = (a = b)"
| "isEqual (JStr a) (JStr b) = (a = b)"
| "isEqual (JArr xs) (JArr ys) = (length xs = length ys \<and> equalArrays xs ys)"
| "isEqual (JObj ps) (JObj qs) = (length ps = length qs \<and> equalObjects ps qs)"
| "isEqual _ _ = False"
| "equalObjects [] qs = True"
| "equalObjects ((k, v) # ps) qs =
     (case map_of qs k of None \<Rightarrow> False | Some u \<Rightarrow> isEqual v u \<and> equalObjects ps qs)"
| "equalArrays (x # xs) (y # ys) = (isEqual x y \<and> equalArrays xs ys)"
| "equalArrays _ _ = True"

record ITempModuleInformation =
  packageJson :: IPackageJson
  existsInProjectConfiguration :: bool
  filename :: string

text \<open>
  The object \<^verbatim>\<open>tempModules\<close>, which starts as \<^verbatim>\<open>{}\<close>: its own properties in the
  order of their creation, and its prototype when an assignment has replaced
  \<^verbatim>\<open>Object.prototype\<close> (\<open>None\<close> is \<^verbatim>\<open>Object.prototype\<close>).
\<close>

record TempModules =
  own :: "(string \<times> ITempModuleInformation) list"
  prototype :: "ITempModuleInformation option"

definition emptyObject :: TempModules where
  "emptyObject = \<lparr>own = [], prototype = None\<rparr>"

text \<open>A new own property: a key the object has keeps its place, a new key goes last.\<close>

fun assign :: "(string \<times> 'a) list \<Rightarrow> string \<Rightarrow> 'a \<Rightarrow> (string \<times> 'a) list" where
  "assign [] k v = [(k, v)]"
| "assign ((k', v') # kvs) k v =
     (if k' = k then (k, v) # kvs else (k', v') # assign kvs k v)"

text \<open>
  \<^verbatim>\<open>tempModules[k] = v\<close> for an object \<open>v\<close>. The name \<^verbatim>\<open>__proto__\<close> is an accessor
  of \<^verbatim>\<open>Object.prototype\<close>: its setter replaces the prototype of \<^verbatim>\<open>tempModules\<close> and
  creates no property. Every other name becomes an own property (the other members of
  \<^verbatim>\<open>Object.prototype\<close> are writable data properties, which an assignment shadows).
\<close>

definition setProperty :: "TempModules \<Rightarrow> string \<Rightarrow> ITempModuleInformation \<Rightarrow> TempModules" where
  "setProperty obj k v =
     (if k = ''__proto__'' then obj\<lparr>prototype := Some v\<rparr>
      else obj\<lparr>own := assign (own obj) k v\<rparr>)"

text \<open>
  The values that \<^verbatim>\<open>tempModules[k]\<close> can yield: a stored record, through the prototype
  one of the fields of a stored record, a method of \<^verbatim>\<open>Object.prototype\<close> or
  \<^verbatim>\<open>Object.prototype\<close> itself, or \<^verbatim>\<open>undefined\<close>.
\<close>

datatype js_value =
    VUndefined
  | VInfo ITempModuleInformation
  | VJson json
  | VString string
  | VBoolean bool
  | VMethod string
  | VObjectPrototype

text \<open>The methods of \<^verbatim>\<open>Object.prototype\<close>; its one accessor, \<^verbatim>\<open>__proto__\<close>, apart.\<close>

definition object_prototype_methods :: "string list" where
  "object_prototype_methods =
     [''constructor'', ''__defineGetter__'', ''__defineSetter__'', ''hasOwnProperty'',
      ''__lookupGetter__'', ''__lookupSetter__'', ''isPrototypeOf'', ''propertyIsEnumerable'',
      ''toString'', ''valueOf'', ''toLocaleString'']"

definition inherited :: "string \<Rightarrow> js_value" where
  "inherited k = (if k \<in> set object_prototype_methods then VMethod k else VUndefined)"

text \<open>An own property of a stored record.\<close>

definition ownField :: "ITempModuleInformation \<Rightarrow> string \<Rightarrow> js_value option" where
  "ownField v k =
     (if k = ''packageJson'' then Some (VJson (packageJson v))
      else if k = ''existsInProjectConfiguration'' then Some (VBoolean (existsInProjectConfiguration v))
      else if k = ''filename'' then Some (VString (filename v))
      else None)"

text \<open>
  \<^verbatim>\<open>tempModules[k]\<close>: an own property, or else what the prototype chain has. The
  getter of \<^verbatim>\<open>__proto__\<close> yields the prototype of \<^verbatim>\<open>tempModules\<close>.
\<close>

definition getProperty :: "TempModules \<Rightarrow> string \<Rightarrow> js_value" where
  "getProperty obj k =
     (case map_of (own obj) k of
        Some v \<Rightarrow> VInfo v
      | None \<Rightarrow>
          if k = ''__proto__''
          then (case prototype obj of None \<Rightarrow> VObjectPrototype | Some v \<Rightarrow> VInfo v)
          else (case prototype obj of
                  None \<Rightarrow> inherited k
                | Some v \<Rightarrow> (case ownField v k of Some x \<Rightarrow> x | None \<Rightarrow> inherited k)))"

text \<open>\<^verbatim>\<open>!tempModule\<close> is the negation of this.\<close>

fun truthy :: "js_value \<Rightarrow> bool" where
  "truthy VUndefined = False"
| "truthy (VInfo v) = True"
| "truthy (VJson JNull) = False"
| "truthy (VJson (JBool b)) = b"
| "truthy (VJson (JNum n)) = (n \<noteq> 0)"
| "truthy (VJson (JStr s)) = (s \<noteq> [])"
| "truthy (VJson (JArr xs)) = True"
| "truthy (VJson (JObj kvs)) = True"
| "truthy (VString s) = (s \<noteq> [])"
| "truthy (VBoolean b) = b"
| "truthy (VMethod k) = True"
| "truthy VObjectPrototype = True"

text \<open>\<^verbatim>\<open>tempModule.packageJson\<close> of a truthy value; \<open>None\<close> is \<^verbatim>\<open>undefined\<close>.\<close>

fun packageJsonOf :: "js_value \<Rightarrow> json option" where
  "packageJsonOf (VInfo v) = Some (packageJson v)"
| "packageJsonOf (VJson j) = property j ''packageJson''"
| "packageJsonOf _ = None"

text \<open>\<^verbatim>\<open>_.isEqual\<close> when a side can be \<^verbatim>\<open>undefined\<close>, which is equal to itself only.\<close>

definition isEqualOrUndefined :: "json option \<Rightarrow> json option \<Rightarrow> bool" where
  "isEqualOrUndefined value other =
     (case value of
        None \<Rightarrow> other = None
      | Some a \<Rightarrow> (case other of None \<Rightarrow> False | Some b \<Rightarrow> isEqual a b))"

text \<open>
  The order of \<^verbatim>\<open>Object.keys\<close>: the names that are array indices (the decimal numeral,
  without leading zero, of a number below \<^verbatim>\<open>2^32 - 1\<close>) in ascending order, then the other
  names in the order of their creation.
\<close>

definition decimal :: "string \<Rightarrow> int" where
  "decimal s = foldl (\<lambda>n c. 10 * n + (of_char c - 48)) 0 s"

definition array_index :: "string \<Rightarrow> bool" where
  "array_index s =
     (s \<noteq> [] \<and> list_all (\<lambda>c. c \<in> set ''0123456789'') s \<and> (s = ''0'' \<or> hd s \<noteq> CHR ''0'') \<and>
      decimal s < 4294967295)"

definition Object_keys :: "TempModules \<Rightarrow> string list" where
  "Object_keys obj =
     (let names = map fst (own obj)
      in sort_key decimal (filter array_index names) @ filter (\<lambda>k. \<not> array_index k) names)"

text \<open>Lines 167-174: every file is read and stored under its \<^verbatim>\<open>name\<close>.\<close>

fun readTempModules ::
  "(string \<Rightarrow> json) \<Rightarrow> string list \<Rightarrow> TempModules \<Rightarrow> error + TempModules" where
  "readTempModules req [] tempModules = Inr tempModules"
| "readTempModules req (file # rest) tempModules =
     (case name_of (req file) of
        None \<Rightarrow> Inl (NotAPackageJson file)
      | Some n \<Rightarrow>
          readTempModules req rest
            (setProperty tempModules n
               \<lparr>packageJson = req file, existsInProjectConfiguration = False, filename = file\<rparr>))"

text \<open>
  Lines 177-192: the first temp module, in the order of the keys, with no project. A key
  of the object is an own property of it.
\<close>

definition foundMatchingProject :: "RushConfigurationProject list \<Rightarrow> string \<Rightarrow> bool" where
  "foundMatchingProject ps tempModuleName =
     list_ex (\<lambda>project. tempProjectName project = tempModuleName) ps"

definition findOrphan ::
  "RushConfigurationProject list \<Rightarrow> TempModules \<Rightarrow> ITempModuleInformation option" where
  "findOrphan ps tempModules =
     (case find (\<lambda>tempModuleName. \<not> foundMatchingProject ps tempModuleName)
             (Object_keys tempModules) of
        None \<Rightarrow> None
      | Some tempModuleName \<Rightarrow> map_of (own tempModules) tempModuleName)"

text \<open>Lines 197-225: every project has a temp module, equal to the expected one.\<close>

fun checkProjects ::
  "TempModules \<Rightarrow> (string \<Rightarrow> IPackageJson option) \<Rightarrow> RushConfigurationProject list \<Rightarrow> unit io" where
  "checkProjects tempModules expectedTempModules [] = ret ()"
| "checkProjects tempModules expectedTempModules (project # rest) =
     (let tempModule = getProperty tempModules (tempProjectName project)
      in if \<not> truthy tempModule
         then (\<lambda>w. (Inl (MissingTempModule (packageName project)), w))
         else (let expectedTempModule = expectedTempModules (packageName project)
               in if \<not> isEqualOrUndefined expectedTempModule (packageJsonOf tempModule)
                  then (\<lambda>w. (Inl (Outdated (packageName project)),
                              w\<lparr>console := console w @
                                  [OutdatedMessage (packageName project),
                                   ExpectedManifest expectedTempModule,
                                   ActualManifest (packageJsonOf tempModule)]\<rparr>))
                  else checkProjects tempModules expectedTempModules rest))"

text \<open>
  \<^verbatim>\<open>_checkThatTempModulesMatch\<close> (lines 163-226). The class
  \<^verbatim>\<open>TempModuleGenerator\<close> is not among the sources: its constructor is the parameter
  \<open>generator\<close>, which throws (a \<open>ConfigError\<close> with its message, section 4.1 of the
  specification) or yields the map of expected temp modules by package name.
\<close>

definition checkThatTempModulesMatch ::
  "(RushConfiguration \<Rightarrow> string + (string \<Rightarrow> IPackageJson option)) \<Rightarrow> InstallAction \<Rightarrow> unit io" where
  "checkThatTempModulesMatch generator this =
     (\<lambda>w. case readTempModules (require w) (tempModulesFiles this) emptyObject of
             Inl e \<Rightarrow> (Inl e, w)
           | Inr tempModules \<Rightarrow>
               (case findOrphan (projects (rushConfiguration this)) tempModules of
                  Some tempModule \<Rightarrow> (Inl (OrphanedTempModule (filename tempModule)), w)
                | None \<Rightarrow>
                    (case generator (rushConfiguration this) of
                       Inl message \<Rightarrow> (Inl (ConfigError message), w)
                     | Inr expectedTempModules \<Rightarrow>
                         checkProjects tempModules expectedTempModules
                           (projects (rushConfiguration this)) w)))"

subsection \<open>Vocabulary of the statements\<close>

text \<open>The events of \<open>j\<close> runs of one command, all started in the file system of \<open>w\<close>.\<close>

definition exec_events ::
  "string \<Rightarrow> string list \<Rightarrow> string \<Rightarrow> world \<Rightarrow> nat \<Rightarrow> (event \<times> (string \<Rightarrow> node option)) list" where
  "exec_events command args dir w j =
     map (\<lambda>i. (Exec command args dir (exit_status w args (invocations w args + i)), files w)) [0..<j]"

text \<open>What no action of the process changes.\<close>

definition same_outside :: "world \<Rightarrow> world \<Rightarrow> bool" where
  "same_outside w w' =
     (now w' = now w \<and> exit_status w' = exit_status w \<and> glob_sync w' = glob_sync w \<and>
      require w' = require w \<and> console w' = console w)"

text \<open>The events that a run added to the history.\<close>

definition new_events :: "world \<Rightarrow> world \<Rightarrow> (event \<times> (string \<Rightarrow> node option)) list" where
  "new_events w w' = drop (length (history w)) (history w')"

text \<open>
  No event creates the marker, and every event but the deletion of the marker starts
  in a file system without the marker.
\<close>

definition safe_events :: "string \<Rightarrow> (event \<times> (string \<Rightarrow> node option)) list \<Rightarrow> bool" where
  "safe_events marker evs =
     list_all (\<lambda>(e, snap). e \<noteq> CreateFile marker \<and> (e = Unlink marker \<or> snap marker = None)) evs"

text \<open>
  From \<open>w\<close> to \<open>w'\<close> the marker went away or stayed away, by safe events, and the
  command \<open>a\<close> was not run; a marker that was there was deleted by the first event.
\<close>

definition invalidated :: "string \<Rightarrow> string list \<Rightarrow> world \<Rightarrow> world \<Rightarrow> bool" where
  "invalidated marker a w w' =
     (same_outside w w' \<and> invocations w' a = invocations w a \<and> files w' marker = None \<and>
      (\<exists>evs. history w' = history w @ evs \<and> safe_events marker evs \<and>
         (files w marker = None \<or> evs \<noteq> [] \<and> hd evs = (Unlink marker, files w))))"

text \<open>A failure by a command other than \<open>a\<close> that exited with a nonzero status.\<close>

definition command_failure :: "world \<Rightarrow> string list \<Rightarrow> error \<Rightarrow> bool" where
  "command_failure w a e =
     (\<exists>b i. e = CommandFailed b (exit_status w b i) \<and> exit_status w b i \<noteq> 0 \<and> b \<noteq> a)"

definition keeps :: "string \<Rightarrow> string list \<Rightarrow> 'a io \<Rightarrow> bool" where
  "keeps marker a m =
     (\<forall>w r w'. files w marker = None \<longrightarrow> m w = (r, w') \<longrightarrow>
        invalidated marker a w w' \<and> (\<forall>e. r = Inl e \<longrightarrow> command_failure w a e))"

text \<open>The run has to install: a clean was forced, or the marker is not current.\<close>

definition needs_install :: "InstallAction \<Rightarrow> world \<Rightarrow> bool" where
  "needs_install this w =
     (cleanInstall this \<or> cleanInstallFull this \<or>
      \<not> isFileTimestampCurrent (commonNodeModulesMarkerFilename (rushConfiguration this))
           (packageJsonFilenames this) w)"

text \<open>The exit status of the \<open>i\<close>-th attempt of a command from now on, counted from 1.\<close>

definition attempt_status :: "world \<Rightarrow> string list \<Rightarrow> nat \<Rightarrow> int" where
  "attempt_status w args i = exit_status w args (invocations w args + (i - 1))"

text \<open>Every command but \<open>a\<close> exits with status 0.\<close>

definition others_succeed :: "world \<Rightarrow> string list \<Rightarrow> bool" where
  "others_succeed w a = (\<forall>b n. b = a \<or> exit_status w b n = 0)"

text \<open>The file \<open>f\<close> exists and is newer than the marker, which exists.\<close>

definition newer_than_marker :: "InstallAction \<Rightarrow> world \<Rightarrow> string \<Rightarrow> bool" where
  "newer_than_marker this w f =
     (case files w (commonNodeModulesMarkerFilename (rushConfiguration this)) of
        None \<Rightarrow> False
      | Some m \<Rightarrow> (case files w f of None \<Rightarrow> False | Some n \<Rightarrow> mtime m < mtime n))"

text \<open>The marker is not there when an event starts, unless the event deletes or creates it.\<close>

definition marker_absent_during :: "string \<Rightarrow> (event \<times> (string \<Rightarrow> node option)) list \<Rightarrow> bool" where
  "marker_absent_during marker evs =
     list_all (\<lambda>(e, snap). e = Unlink marker \<or> e = CreateFile marker \<or> snap marker = None) evs"

definition creates :: "string \<Rightarrow> (event \<times> (string \<Rightarrow> node option)) list \<Rightarrow> bool" where
  "creates marker evs = list_ex (\<lambda>(e, snap). e = CreateFile marker) evs"

text \<open>JSON values whose objects have no key twice, as every JavaScript object.\<close>

fun wf_json :: "json \<Rightarrow> bool" where
  "wf_json (JObj kvs) = (distinct (map fst kvs) \<and> (\<forall>v \<in> snd ` set kvs. wf_json v))"
| "wf_json (JArr xs) = (\<forall>x \<in> set xs. wf_json x)"
| "wf_json _ = True"

text \<open>
  The second value is the first with the keys of its objects, at any depth, in another
  order: the same fields with the same values, arrays in the same order.
\<close>

inductive key_reordering :: "json \<Rightarrow> json \<Rightarrow> bool" where
  kr_null: "key_reordering JNull JNull"
| kr_bool: "key_reordering (JBool b) (JBool b)"
| kr_num: "key_reordering (JNum n) (JNum n)"
| kr_str: "key_reordering (JStr s) (JStr s)"
| kr_arr: "list_all2 key_reordering xs ys \<Longrightarrow> key_reordering (JArr xs) (JArr ys)"
| kr_obj: "list_all2 (\<lambda>p q. fst p = fst q \<and> key_reordering (snd p) (snd q)) ps ps' \<Longrightarrow>
           mset ps' = mset qs \<Longrightarrow> key_reordering (JObj ps) (JObj qs)"

text \<open>What the check stores for the file \<open>f\<close>.\<close>

definition info :: "(string \<Rightarrow> json) \<Rightarrow> string \<Rightarrow> ITempModuleInformation" where
  "info req f = \<lparr>packageJson = req f, existsInProjectConfiguration = False, filename = f\<rparr>"

text \<open>The file \<open>f\<close> holds a temp module of the name \<open>n\<close>.\<close>

definition module_named :: "world \<Rightarrow> string \<Rightarrow> string \<Rightarrow> bool" where
  "module_named w n f = (name_of (require w f) = Some n)"

text \<open>The file that stands for the name \<open>n\<close> in the check: the last one read.\<close>

definition persisted :: "InstallAction \<Rightarrow> world \<Rightarrow> string \<Rightarrow> string option" where
  "persisted this w n = find (module_named w n) (rev (tempModulesFiles this))"

text \<open>The temp module in the file \<open>f\<close> has no project of its name.\<close>

definition orphaned :: "InstallAction \<Rightarrow> world \<Rightarrow> string \<Rightarrow> bool" where
  "orphaned this w f =
     (case name_of (require w f) of
        None \<Rightarrow> False
      | Some n \<Rightarrow> \<not> foundMatchingProject (projects (rushConfiguration this)) n)"

definition well_typed :: "InstallAction \<Rightarrow> world \<Rightarrow> bool" where
  "well_typed this w = list_all (\<lambda>f. name_of (require w f) \<noteq> None) (tempModulesFiles this)"

definition matches :: "IPackageJson option \<Rightarrow> IPackageJson \<Rightarrow> bool" where
  "matches expected actual = (case expected of None \<Rightarrow> False | Some e \<Rightarrow> isEqual e actual)"

text \<open>The project has a persisted temp module, and it matches the expected one.\<close>

definition passes ::
  "InstallAction \<Rightarrow> world \<Rightarrow> (string \<Rightarrow> IPackageJson option) \<Rightarrow> RushConfigurationProject \<Rightarrow> bool" where
  "passes this w expected p =
     (case persisted this w (tempProjectName p) of
        None \<Rightarrow> False
      | Some f \<Rightarrow> matches (expected (packageName p)) (require w f))"

text \<open>The three lines that the check prints before it throws for an outdated module.\<close>

definition outdated_report ::
  "(string \<Rightarrow> IPackageJson option) \<Rightarrow> RushConfigurationProject \<Rightarrow> IPackageJson \<Rightarrow> console_line list" where
  "outdated_report expected p actual =
     [OutdatedMessage (packageName p), ExpectedManifest (expected (packageName p)),
      ActualManifest (Some actual)]"

text \<open>
  The names on which an object used as a dictionary behaves as one: no temp module is
  named \<^verbatim>\<open>__proto__\<close>, and no temp project name is a member of \<^verbatim>\<open>Object.prototype\<close>.
\<close>

definition ordinary_names :: "InstallAction \<Rightarrow> world \<Rightarrow> bool" where
  "ordinary_names this w =
     (list_all (\<lambda>f. name_of (require w f) \<noteq> Some ''__proto__'') (tempModulesFiles this) \<and>
      list_all (\<lambda>p. tempProjectName p \<notin> set (''__proto__'' # object_prototype_methods))
        (projects (rushConfiguration this)))"

text \<open>The expected manifests that the generator yields for the projects are JSON values.\<close>

definition wf_expected ::
  "(RushConfiguration \<Rightarrow> string + (string \<Rightarrow> IPackageJson option)) \<Rightarrow> InstallAction \<Rightarrow> bool" where
  "wf_expected generator this =
     (case generator (rushConfiguration this) of
        Inl message \<Rightarrow> True
      | Inr expected \<Rightarrow>
          list_all (\<lambda>p. case expected (packageName p) of None \<Rightarrow> True | Some e \<Rightarrow> wf_json e)
            (projects (rushConfiguration this)))"

text \<open>
  Deep structural equality of the expected manifest and a persisted one: the same kind
  of value at every depth, equal booleans, numbers and strings, arrays with structurally
  equal elements in the same order, objects with the same keys and structurally equal
  values under each key. A project for which the generator has no manifest has none that
  a persisted one could equal.
\<close>

definition structurally_equal :: "IPackageJson option \<Rightarrow> IPackageJson \<Rightarrow> bool" where
  "structurally_equal expected actual =
     (case expected of None \<Rightarrow> False | Some e \<Rightarrow> key_reordering e actual)"

text \<open>The project has a persisted temp module, structurally equal to the expected one.\<close>

definition in_sync ::
  "InstallAction \<Rightarrow> world \<Rightarrow> (string \<Rightarrow> IPackageJson option) \<Rightarrow> RushConfigurationProject \<Rightarrow> bool" where
  "in_sync this w expected p =
     (case persisted this w (tempProjectName p) of
        None \<Rightarrow> False
      | Some f \<Rightarrow> structurally_equal (expected (packageName p)) (require w f))"

text \<open>The test of the second loop: the project has a temp module, equal to the expected one.\<close>

definition accepts ::
  "TempModules \<Rightarrow> (string \<Rightarrow> IPackageJson option) \<Rightarrow> RushConfigurationProject \<Rightarrow> bool" where
  "accepts tempModules expected p =
     (truthy (getProperty tempModules (tempProjectName p)) \<and>
      isEqualOrUndefined (expected (packageName p))
        (packageJsonOf (getProperty tempModules (tempProjectName p))))"

subsection \<open>Example inputs\<close>



definition project_a :: RushConfigurationProject where
  "project_a = \<lparr>packageName = ''a'', tempProjectName = ''rush-a''\<rparr>"

definition project_b :: RushConfigurationProject where
  "project_b = \<lparr>packageName = ''b'', tempProjectName = ''rush-b''\<rparr>"

definition config_ex :: RushConfiguration where
  "config_ex =
     \<lparr>commonFolder = ''/repo/common'',
      npmToolFilename = ''/repo/common/npm-local/node_modules/.bin/npm'',
      cacheFolder = None, tmpFolder = None,
      projects = [project_a, project_b],
      projectsByName = [''a'' \<mapsto> project_a, ''b'' \<mapsto> project_b]\<rparr>"

definition manifest :: "string \<Rightarrow> (string \<times> string) list \<Rightarrow> IPackageJson" where
  "manifest n deps =
     JObj [(''name'', JStr n), (''version'', JStr ''0.0.0''), (''private'', JBool True),
           (''dependencies'', JObj (map (\<lambda>(k, v). (k, JStr v)) deps))]"

text \<open>A world with the given files and installer, at the start of a process.\<close>

definition world_ex :: "(string \<Rightarrow> node option) \<Rightarrow> (string list \<Rightarrow> nat \<Rightarrow> int) \<Rightarrow> world" where
  "world_ex fs st =
     \<lparr>files = fs, now = 100, exit_status = st, invocations = (\<lambda>_. 0), glob_sync = (\<lambda>_. []),
      require = (\<lambda>_. JNull), history = [], console = []\<rparr>"

definition install_ex :: "bool \<Rightarrow> InstallAction" where
  "install_ex clean =
     \<lparr>rushConfiguration = config_ex, cleanInstall = clean, cleanInstallFull = False,
      tempModulesFiles = [''/repo/common/temp_modules/rush-a/package.json'']\<rparr>"

definition tool_ex :: string where
  "tool_ex = ''/repo/common/npm-local/node_modules/.bin/npm''"

definition marker_ex :: string where
  "marker_ex = ''/repo/common/last-install.flag''"

text \<open>An installer whose \<open>install\<close> fails \<open>n\<close> times and then succeeds; all else succeeds.\<close>

definition flaky_install :: "nat \<Rightarrow> string list \<Rightarrow> nat \<Rightarrow> int" where
  "flaky_install n args i = (if args = [''install''] \<and> i < n then 1 else 0)"

text \<open>The tool is installed and the last install was interrupted: there is no marker.\<close>

definition interrupted_files :: "string \<Rightarrow> node option" where
  "interrupted_files =
     [tool_ex \<mapsto> \<lparr>mtime = 1, content = []\<rparr>,
      ''/repo/common/package.json'' \<mapsto> \<lparr>mtime = 5, content = []\<rparr>,
      ''/repo/common/node_modules'' \<mapsto> \<lparr>mtime = 7, content = []\<rparr>,
      ''/repo/common/temp_modules/rush-a/package.json'' \<mapsto> \<lparr>mtime = 5, content = []\<rparr>]"

text \<open>The same with the marker, older than \<^verbatim>\<open>common/package.json\<close>.\<close>

definition outdated_files :: "string \<Rightarrow> node option" where
  "outdated_files = interrupted_files(marker_ex \<mapsto> \<lparr>mtime = 3, content = []\<rparr>)"

text \<open>The marker is the newest file, and \<^verbatim>\<open>node_modules\<close> was deleted.\<close>

definition deleted_folder_files :: "string \<Rightarrow> node option" where
  "deleted_folder_files =
     [tool_ex \<mapsto> \<lparr>mtime = 1, content = []\<rparr>,
      ''/repo/common/package.json'' \<mapsto> \<lparr>mtime = 5, content = []\<rparr>,
      ''/repo/common/temp_modules/rush-a/package.json'' \<mapsto> \<lparr>mtime = 5, content = []\<rparr>,
      marker_ex \<mapsto> \<lparr>mtime = 10, content = []\<rparr>]"

text \<open>The marker is the newest file and everything is in place.\<close>

definition current_files :: "string \<Rightarrow> node option" where
  "current_files = interrupted_files(marker_ex \<mapsto> \<lparr>mtime = 10, content = []\<rparr>)"

text \<open>An installer whose every command fails \<open>n\<close> times and then succeeds.\<close>

definition flaky :: "nat \<Rightarrow> string list \<Rightarrow> nat \<Rightarrow> int" where
  "flaky n args i = (if i < n then 1 else 0)"


text \<open>
  Temp modules on disk: one file for \<^verbatim>\<open>rush-a\<close>, two files for \<^verbatim>\<open>rush-b\<close>, the
  second with its keys in another order, and a file of no project.
\<close>

definition file_a :: string where
  "file_a = ''/repo/common/temp_modules/rush-a/package.json''"

definition file_b :: string where
  "file_b = ''/repo/common/temp_modules/rush-b/package.json''"

definition file_b2 :: string where
  "file_b2 = ''/repo/common/temp_modules/rush-b-copy/package.json''"

definition file_c :: string where
  "file_c = ''/repo/common/temp_modules/rush-c/package.json''"

definition manifest_b_reordered :: IPackageJson where
  "manifest_b_reordered =
     JObj [(''dependencies'', JObj [(''e'', JStr ''~2.0.0''), (''d'', JStr ''^1.2.0'')]),
           (''private'', JBool True), (''version'', JStr ''0.0.0''), (''name'', JStr ''rush-b'')]"

definition require_ex :: "string \<Rightarrow> json" where
  "require_ex f =
     (if f = file_a then manifest ''rush-a'' [(''d'', ''^1.2.0'')]
      else if f = file_b then manifest ''rush-b'' [(''d'', ''^1.2.0''), (''e'', ''~2.0.0'')]
      else if f = file_b2 then manifest_b_reordered
      else if f = file_c then manifest ''rush-c'' []
      else JNull)"

definition generator_ex :: "RushConfiguration \<Rightarrow> string + (string \<Rightarrow> IPackageJson option)" where
  "generator_ex cfg =
     Inr [''a'' \<mapsto> manifest ''rush-a'' [(''d'', ''^1.2.0'')],
          ''b'' \<mapsto> manifest ''rush-b'' [(''d'', ''^1.2.0''), (''e'', ''~2.0.0'')]]"

text \<open>The same generator after the range of \<^verbatim>\<open>d\<close> in project \<^verbatim>\<open>a\<close> changed.\<close>

definition expected_changed :: "string \<Rightarrow> IPackageJson option" where
  "expected_changed =
     [''a'' \<mapsto> manifest ''rush-a'' [(''d'', ''^1.3.0'')],
      ''b'' \<mapsto> manifest ''rush-b'' [(''d'', ''^1.2.0''), (''e'', ''~2.0.0'')]]"

definition generator_changed :: "RushConfiguration \<Rightarrow> string + (string \<Rightarrow> IPackageJson option)" where
  "generator_changed cfg = Inr expected_changed"

definition check_ex :: "string list \<Rightarrow> InstallAction" where
  "check_ex fs =
     \<lparr>rushConfiguration = config_ex, cleanInstall = False, cleanInstallFull = False,
      tempModulesFiles = fs\<rparr>"

definition disk_ex :: world where
  "disk_ex =
     \<lparr>files = current_files, now = 100, exit_status = (\<lambda>_ _. 0), invocations = (\<lambda>_. 0),
      glob_sync = (\<lambda>_. []), require = require_ex, history = [], console = []\<rparr>"

text \<open>
  A temp module of the name \<^verbatim>\<open>__proto__\<close>, a project whose temp project name is a
  method of \<^verbatim>\<open>Object.prototype\<close>, and the generator after the range of \<^verbatim>\<open>d\<close> in
  project \<^verbatim>\<open>b\<close> changed.
\<close>

definition file_p :: string where
  "file_p = ''/repo/common/temp_modules/proto/package.json''"

definition disk_proto :: world where
  "disk_proto = disk_ex\<lparr>require := (require_ex)(file_p := manifest ''__proto__'' [])\<rparr>"

definition check_method :: InstallAction where
  "check_method =
     \<lparr>rushConfiguration =
        config_ex\<lparr>projects := [\<lparr>packageName = ''c'', tempProjectName = ''constructor''\<rparr>]\<rparr>,
      cleanInstall = False, cleanInstallFull = False, tempModulesFiles = []\<rparr>"

definition expected_changed_b :: "string \<Rightarrow> IPackageJson option" where
  "expected_changed_b =
     [''a'' \<mapsto> manifest ''rush-a'' [(''d'', ''^1.2.0'')],
      ''b'' \<mapsto> manifest ''rush-b'' [(''d'', ''^1.3.0''), (''e'', ''~2.0.0'')]]"

definition generator_changed_b :: "RushConfiguration \<Rightarrow> string + (string \<Rightarrow> IPackageJson option)" where
  "generator_changed_b cfg = Inr expected_changed_b"

section \<open>Satisfaction analysis\<close>







text \<open>
  C9. Without a shrinkwrap file the decision is to delete \<^verbatim>\<open>node_modules\<close>, whatever
  the temp modules hold: none of them is read, so not even a temp module that would
  make the scan throw changes the answer.
\<close>

theorem absent_shrinkwrap_full_reinstall:
  "shouldDeleteNodeModules satisfies cfg None tempModules = Inr True"
  by (simp add: shouldDeleteNodeModules_def)

section \<open>Runs of the installer\<close>

lemma executeCommand_fields:
  assumes "executeCommand c a d w = (r, w')"
  shows "files w' = files w" "same_outside w w'"
    "history w' = history w @ [(Exec c a d (exit_status w a (invocations w a)), files w)]"
    "invocations w' = (invocations w)(a := Suc (invocations w a))"
    "r = (if exit_status w a (invocations w a) = 0 then Inr ()
          else Inl (CommandFailed a (exit_status w a (invocations w a))))"
  using assms
  by (auto simp: executeCommand_def Let_def record_event_def same_outside_def split: if_splits)

lemma exec_events_shift:
  assumes "files w1 = files w" "exit_status w1 = exit_status w"
    "invocations w1 a = Suc (invocations w a)"
  shows "(Exec c a d (exit_status w a (invocations w a)), files w) # exec_events c a d w1 j
           = exec_events c a d w (Suc j)"
proof -
  have "[0..<Suc j] = 0 # map Suc [0..<j]"
    by (simp add: upt_conv_Cons map_Suc_upt del: upt_Suc)
  then show ?thesis
    using assms by (simp add: exec_events_def comp_def del: upt_Suc)
qed

lemma retry_fields:
  assumes "executeCommandWithRetry c a n d w = (r, w')"
  shows "files w' = files w \<and> same_outside w w' \<and>
         (\<forall>b. b \<noteq> a \<longrightarrow> invocations w' b = invocations w b) \<and>
         (\<exists>j \<le> n. (0 < n \<longrightarrow> 0 < j) \<and> history w' = history w @ exec_events c a d w j \<and>
                  invocations w' a = invocations w a + j \<and>
                  (r = Inr () \<longrightarrow> 0 < j \<and> exit_status w a (invocations w a + (j - 1)) = 0)) \<and>
         (r = Inr () \<or> r = Inl NoAttempts \<or>
          (\<exists>i. r = Inl (CommandFailed a (exit_status w a i)) \<and> exit_status w a i \<noteq> 0))"
  using assms
proof (induction n arbitrary: w)
  case 0
  then show ?case by (auto simp: same_outside_def exec_events_def)
next
  case (Suc n)
  obtain r1 w1 where e: "executeCommand c a d w = (r1, w1)" by (cases "executeCommand c a d w")
  note f = executeCommand_fields [OF e]
  show ?case
  proof (cases "r1 = Inr () \<or> n = 0")
    case True
    then have w': "w' = w1" "r = r1" using Suc.prems e by (auto split: sum.splits)
    have h: "history w1 = history w @ exec_events c a d w 1"
      using f(3) by (simp add: exec_events_def)
    have i: "invocations w1 a = invocations w a + 1" using f(4) by simp
    have ok: "r1 = Inr () \<longrightarrow> exit_status w a (invocations w a + (1 - 1)) = 0"
      using f(5) by (simp split: if_splits)
    have res: "r1 = Inr () \<or> r1 = Inl NoAttempts \<or>
          (\<exists>i. r1 = Inl (CommandFailed a (exit_status w a i)) \<and> exit_status w a i \<noteq> 0)"
      using f(5) by (auto split: if_splits)
    have "\<exists>j \<le> Suc n. (0 < Suc n \<longrightarrow> 0 < j) \<and> history w1 = history w @ exec_events c a d w j \<and>
                  invocations w1 a = invocations w a + j \<and>
                  (r1 = Inr () \<longrightarrow> 0 < j \<and> exit_status w a (invocations w a + (j - 1)) = 0)"
      using h i ok by (intro exI [of _ 1]) simp
    then show ?thesis using f(1,2,4) res w' by simp
  next
    case False
    then have rec: "executeCommandWithRetry c a n d w1 = (r, w')"
      using Suc.prems e by (auto split: sum.splits)
    have s1: "exit_status w1 = exit_status w" using f(2) by (simp add: same_outside_def)
    have i1: "invocations w1 a = Suc (invocations w a)" using f(4) by simp
    from Suc.IH [OF rec] obtain j where j: "j \<le> n"
      "history w' = history w1 @ exec_events c a d w1 j"
      "invocations w' a = invocations w1 a + j"
      "r = Inr () \<longrightarrow> 0 < j \<and> exit_status w1 a (invocations w1 a + (j - 1)) = 0"
      and fr: "files w' = files w1" "same_outside w1 w'"
      "\<forall>b. b \<noteq> a \<longrightarrow> invocations w' b = invocations w1 b"
      and res: "r = Inr () \<or> r = Inl NoAttempts \<or>
          (\<exists>i. r = Inl (CommandFailed a (exit_status w1 a i)) \<and> exit_status w1 a i \<noteq> 0)"
      by blast
    have h: "history w' = history w @ exec_events c a d w (Suc j)"
      using j(2) f(3) exec_events_shift [of w1 w a c d j, OF f(1) s1 i1] by simp
    have i: "invocations w' a = invocations w a + Suc j"
      using j(3) i1 by simp
    have ok: "r = Inr () \<longrightarrow> 0 < Suc j \<and> exit_status w a (invocations w a + (Suc j - 1)) = 0"
    proof
      assume "r = Inr ()"
      with j(4) have "0 < j" "exit_status w1 a (invocations w1 a + (j - 1)) = 0" by blast+
      then show "0 < Suc j \<and> exit_status w a (invocations w a + (Suc j - 1)) = 0"
        using s1 i1 by (cases j) simp_all
    qed
    have "\<exists>j \<le> Suc n. (0 < Suc n \<longrightarrow> 0 < j) \<and> history w' = history w @ exec_events c a d w j \<and>
                  invocations w' a = invocations w a + j \<and>
                  (r = Inr () \<longrightarrow> 0 < j \<and> exit_status w a (invocations w a + (j - 1)) = 0)"
      using h i ok j(1) by (intro exI [of _ "Suc j"]) simp
    moreover have "same_outside w w'" using f(2) fr(2) by (simp add: same_outside_def)
    moreover have "\<forall>b. b \<noteq> a \<longrightarrow> invocations w' b = invocations w b"
      using fr(3) f(4) by simp
    ultimately show ?thesis using fr(1) f(1) res s1 by simp
  qed
qed

lemma retry_attempts:
  assumes "0 < n" "executeCommandWithRetry c a n d w = (r, w')"
  shows "r \<noteq> Inl NoAttempts"
  using assms
proof (induction n arbitrary: w)
  case 0
  then show ?case by simp
next
  case (Suc n)
  obtain r1 w1 where e: "executeCommand c a d w = (r1, w1)" by (cases "executeCommand c a d w")
  note f = executeCommand_fields(5) [OF e]
  show ?case
  proof (cases "r1 = Inr () \<or> n = 0")
    case True
    then have "r = r1" using Suc.prems e by (auto split: sum.splits)
    then show ?thesis using f by (simp split: if_splits)
  next
    case False
    then have "executeCommandWithRetry c a n d w1 = (r, w')"
      using Suc.prems e by (auto split: sum.splits)
    then show ?thesis using Suc.IH False by simp
  qed
qed

lemma retry_success:
  assumes "k < n" "\<forall>i<k. exit_status w a (invocations w a + i) \<noteq> 0"
    "exit_status w a (invocations w a + k) = 0"
    "executeCommandWithRetry c a n d w = (r, w')"
  shows "r = Inr () \<and> history w' = history w @ exec_events c a d w (Suc k)
         \<and> invocations w' a = invocations w a + Suc k"
  using assms
proof (induction n arbitrary: w k)
  case 0
  then show ?case by simp
next
  case (Suc n)
  obtain r1 w1 where e: "executeCommand c a d w = (r1, w1)" by (cases "executeCommand c a d w")
  note f = executeCommand_fields [OF e]
  show ?case
  proof (cases k)
    case 0
    then have "r1 = Inr ()" using Suc.prems f(5) by simp
    then have "w' = w1" "r = Inr ()" using Suc.prems e by (auto split: sum.splits)
    then show ?thesis using f 0 by (simp add: exec_events_def)
  next
    case (Suc k')
    then have ne: "exit_status w a (invocations w a) \<noteq> 0" using Suc.prems(2) by force
    have n0: "n \<noteq> 0" using Suc.prems(1) Suc by simp
    have rec: "executeCommandWithRetry c a n d w1 = (r, w')"
      using Suc.prems(4) e f(5) ne n0 by (auto split: sum.splits)
    have s1: "exit_status w1 = exit_status w" using f(2) by (simp add: same_outside_def)
    have i1: "invocations w1 a = Suc (invocations w a)" using f(4) by simp
    have "r = Inr () \<and> history w' = history w1 @ exec_events c a d w1 (Suc k')
         \<and> invocations w' a = invocations w1 a + Suc k'"
    proof (rule Suc.IH [OF _ _ _ rec])
      show "k' < n" using Suc.prems(1) Suc by simp
      show "\<forall>i<k'. exit_status w1 a (invocations w1 a + i) \<noteq> 0"
        using Suc.prems(2) Suc s1 i1 by auto
      show "exit_status w1 a (invocations w1 a + k') = 0"
        using Suc.prems(3) Suc s1 i1 by simp
    qed
    then show ?thesis
      using f(3) exec_events_shift [of w1 w a c d "Suc k'", OF f(1) s1 i1] i1 Suc
      by simp
  qed
qed

lemma retry_failure:
  assumes "0 < n" "\<forall>i<n. exit_status w a (invocations w a + i) \<noteq> 0"
    "executeCommandWithRetry c a n d w = (r, w')"
  shows "r = Inl (CommandFailed a (exit_status w a (invocations w a + n - 1)))
         \<and> history w' = history w @ exec_events c a d w n"
  using assms
proof (induction n arbitrary: w)
  case 0
  then show ?case by simp
next
  case (Suc n)
  obtain r1 w1 where e: "executeCommand c a d w = (r1, w1)" by (cases "executeCommand c a d w")
  note f = executeCommand_fields [OF e]
  have ne: "exit_status w a (invocations w a) \<noteq> 0" using Suc.prems(2) by force
  show ?case
  proof (cases "n = 0")
    case True
    then have "w' = w1" "r = r1" using Suc.prems(3) e ne f(5) by (auto split: sum.splits)
    then show ?thesis using f ne True by (simp add: exec_events_def)
  next
    case False
    have rec: "executeCommandWithRetry c a n d w1 = (r, w')"
      using Suc.prems(3) e f(5) ne False by (auto split: sum.splits)
    have s1: "exit_status w1 = exit_status w" using f(2) by (simp add: same_outside_def)
    have i1: "invocations w1 a = Suc (invocations w a)" using f(4) by simp
    have "r = Inl (CommandFailed a (exit_status w1 a (invocations w1 a + n - 1)))
         \<and> history w' = history w1 @ exec_events c a d w1 n"
    proof (rule Suc.IH [OF _ _ rec])
      show "0 < n" using False by simp
      show "\<forall>i<n. exit_status w1 a (invocations w1 a + i) \<noteq> 0"
        using Suc.prems(2) s1 i1 by auto
    qed
    then show ?thesis
      using f(3) exec_events_shift [of w1 w a c d n, OF f(1) s1 i1] i1 s1 False
      by simp
  qed
qed

lemma invalidated_refl: "files w marker = None \<Longrightarrow> invalidated marker a w w"
  by (simp add: invalidated_def same_outside_def safe_events_def)

lemma invalidated_trans:
  "invalidated marker a w w1 \<Longrightarrow> invalidated marker a w1 w2 \<Longrightarrow> invalidated marker a w w2"
  by (auto simp: invalidated_def same_outside_def safe_events_def)

lemma command_failure_later:
  "invalidated marker a w w1 \<Longrightarrow> command_failure w1 a e \<Longrightarrow> command_failure w a e"
  by (simp add: invalidated_def same_outside_def command_failure_def)

lemma keeps_ret: "keeps marker a (ret x)"
  by (simp add: keeps_def ret_def invalidated_refl)

lemma keeps_andThen:
  assumes "keeps marker a m" "\<And>x. keeps marker a (f x)"
  shows "keeps marker a (andThen m f)"
  unfolding keeps_def
proof (intro allI impI)
  fix w r w'
  assume abs: "files w marker = None" and run: "andThen m f w = (r, w')"
  obtain r1 w1 where m: "m w = (r1, w1)" by (cases "m w")
  have i1: "invalidated marker a w w1" and e1: "\<forall>e. r1 = Inl e \<longrightarrow> command_failure w a e"
    using assms(1) abs m by (simp_all add: keeps_def)
  show "invalidated marker a w w' \<and> (\<forall>e. r = Inl e \<longrightarrow> command_failure w a e)"
  proof (cases r1)
    case (Inl e)
    then show ?thesis using run m i1 e1 by (auto simp: andThen_def)
  next
    case (Inr x)
    then have "f x w1 = (r, w')" using run m by (simp add: andThen_def)
    moreover have "files w1 marker = None" using i1 by (simp add: invalidated_def)
    ultimately have "invalidated marker a w1 w'" "\<forall>e. r = Inl e \<longrightarrow> command_failure w1 a e"
      using assms(2) by (simp_all add: keeps_def)
    then show ?thesis using i1 invalidated_trans command_failure_later by blast
  qed
qed

lemma keeps_whenM: "keeps marker a m \<Longrightarrow> keeps marker a (whenM c m)"
  by (auto simp: keeps_def whenM_def invalidated_refl)

lemma keeps_forEach: "(\<And>x. keeps marker a (f x)) \<Longrightarrow> keeps marker a (forEach xs f)"
  by (induction xs) (simp_all add: keeps_ret keeps_andThen)

lemma remove_tree_None: "f p = None \<Longrightarrow> remove_tree d f p = None"
  by (simp add: remove_tree_def)

lemma keeps_dangerouslyDeletePath: "keeps marker a (dangerouslyDeletePath p)"
  by (auto simp: keeps_def dangerouslyDeletePath_def invalidated_def same_outside_def
      safe_events_def record_event_def remove_tree_None)

lemma keeps_recycleDirectory: "keeps marker a (recycleDirectory cfg p)"
  by (auto simp: keeps_def recycleDirectory_def invalidated_def same_outside_def
      safe_events_def record_event_def remove_tree_None)

lemma keeps_createFolderWithRetry: "p \<noteq> marker \<Longrightarrow> keeps marker a (createFolderWithRetry p)"
  by (auto simp: keeps_def createFolderWithRetry_def invalidated_def same_outside_def
      safe_events_def record_event_def)

lemma keeps_executeCommand: "b \<noteq> a \<Longrightarrow> keeps marker a (executeCommand c b d)"
  unfolding keeps_def
proof (intro allI impI)
  fix w r w'
  assume ne: "b \<noteq> a" and abs: "files w marker = None" and run: "executeCommand c b d w = (r, w')"
  note f = executeCommand_fields [OF run]
  have "invalidated marker a w w'"
    using f ne abs by (simp add: invalidated_def safe_events_def)
  moreover have "\<forall>e. r = Inl e \<longrightarrow> command_failure w a e"
    using f(5) ne by (auto simp: command_failure_def split: if_splits)
  ultimately show "invalidated marker a w w' \<and> (\<forall>e. r = Inl e \<longrightarrow> command_failure w a e)"
    by simp
qed

lemma safe_exec_events: "files w marker = None \<Longrightarrow> safe_events marker (exec_events c b d w j)"
  by (simp add: safe_events_def exec_events_def list_all_iff)

lemma keeps_executeCommandWithRetry:
  "b \<noteq> a \<Longrightarrow> 0 < n \<Longrightarrow> keeps marker a (executeCommandWithRetry c b n d)"
  unfolding keeps_def
proof (intro allI impI)
  fix w r w'
  assume ne: "b \<noteq> a" and n: "0 < n" and abs: "files w marker = None"
    and run: "executeCommandWithRetry c b n d w = (r, w')"
  have no: "r \<noteq> Inl NoAttempts" using retry_attempts [OF n run] .
  from retry_fields [OF run] ne abs have "invalidated marker a w w'"
    by (auto simp: invalidated_def safe_exec_events)
  moreover from retry_fields [OF run] ne no have "\<forall>e. r = Inl e \<longrightarrow> command_failure w a e"
    by (auto simp: command_failure_def)
  ultimately show "invalidated marker a w w' \<and> (\<forall>e. r = Inl e \<longrightarrow> command_failure w a e)"
    by simp
qed

lemma marker_neq_folder [simp]:
  "commonNodeModulesFolder cfg \<noteq> commonNodeModulesMarkerFilename cfg"
  by (simp add: commonNodeModulesFolder_def commonNodeModulesMarkerFilename_def path_join_def)

lemma prune_neq_install [simp]: "[''prune''] \<noteq> npmInstallArgs cfg"
  by (simp add: npmInstallArgs_def)

lemma cacheClean_neq_install [simp]: "cacheCleanArgs c \<noteq> npmInstallArgs cfg"
  by (simp add: npmInstallArgs_def cacheCleanArgs_def)

lemma MAX_INSTALL_ATTEMPTS_pos [simp]: "0 < MAX_INSTALL_ATTEMPTS"
  by (simp add: MAX_INSTALL_ATTEMPTS_def)

lemma unlinkSync_invalidated:
  assumes "unlinkSync marker w = (r, w')" "existsSync marker w"
  shows "r = Inr () \<and> invalidated marker a w w'"
  using assms
  by (auto simp: unlinkSync_def invalidated_def same_outside_def safe_events_def record_event_def)

lemma keeps_glob_delete:
  "keeps marker a (\<lambda>w. forEach (glob_sync w pat) dangerouslyDeletePath w)"
  using keeps_forEach [of marker a dangerouslyDeletePath] keeps_dangerouslyDeletePath
  by (simp add: keeps_def)

lemma keeps_pruneTempProjects:
  "keeps (commonNodeModulesMarkerFilename cfg) (npmInstallArgs cfg) (pruneTempProjects cfg)"
  unfolding pruneTempProjects_def
  by (rule keeps_andThen) (simp_all add: keeps_executeCommandWithRetry keeps_glob_delete)

lemma keeps_cache_clean:
  "keeps (commonNodeModulesMarkerFilename cfg) (npmInstallArgs cfg)
     (case configured (cacheFolder cfg) of
        Some c \<Rightarrow> executeCommand (npmToolFilename cfg) (cacheCleanArgs c) (commonFolder cfg)
      | None \<Rightarrow> ret ())"
  by (simp add: keeps_ret keeps_executeCommand split: option.splits)

lemma keeps_delete_folder:
  "keeps (commonNodeModulesMarkerFilename cfg) a
     (whenM (existsSync (commonNodeModulesFolder cfg))
        (andThen (dangerouslyDeletePath (commonNodeModulesFolder cfg))
           (\<lambda>_. createFolderWithRetry (commonNodeModulesFolder cfg))))"
  by (rule keeps_whenM, rule keeps_andThen)
    (simp_all add: keeps_dangerouslyDeletePath keeps_createFolderWithRetry)

lemma keeps_clean_rest:
  "keeps (commonNodeModulesMarkerFilename cfg) (npmInstallArgs cfg)
     (andThen (whenM (existsSync (commonNodeModulesFolder cfg))
                (andThen (dangerouslyDeletePath (commonNodeModulesFolder cfg))
                   (\<lambda>_. createFolderWithRetry (commonNodeModulesFolder cfg)))) (\<lambda>_.
      andThen (case configured (cacheFolder cfg) of
                 Some c \<Rightarrow> executeCommand (npmToolFilename cfg) (cacheCleanArgs c) (commonFolder cfg)
               | None \<Rightarrow> ret ()) (\<lambda>_.
      ret (True, True))))"
  apply (rule keeps_andThen)
   apply (rule keeps_delete_folder)
  apply (rule keeps_andThen)
   apply (rule keeps_cache_clean)
  apply (rule keeps_ret)
  done

text \<open>A step that first deletes the marker, if it is there, and then keeps it away.\<close>

lemma unlink_then_keeps:
  assumes k: "keeps marker a m"
    and run: "andThen (whenM (existsSync marker) (unlinkSync marker)) (\<lambda>_. m) w = (r, w')"
  shows "invalidated marker a w w' \<and> (\<forall>e. r = Inl e \<longrightarrow> command_failure w a e)"
proof (cases "existsSync marker w")
  case True
  obtain r1 w1 where u: "unlinkSync marker w = (r1, w1)" by (cases "unlinkSync marker w")
  from unlinkSync_invalidated [OF u True, of a] have r1: "r1 = Inr ()"
    and i1: "invalidated marker a w w1" by simp_all
  have "m w1 = (r, w')" using run True u r1 by (simp add: andThen_def whenM_def)
  moreover have "files w1 marker = None" using i1 by (simp add: invalidated_def)
  ultimately have "invalidated marker a w1 w'" "\<forall>e. r = Inl e \<longrightarrow> command_failure w1 a e"
    using k by (simp_all add: keeps_def)
  then show ?thesis using i1 invalidated_trans command_failure_later by blast
next
  case False
  then have "m w = (r, w')" using run by (simp add: andThen_def whenM_def)
  moreover have "files w marker = None" using False by (simp add: existsSync_def)
  ultimately show ?thesis using k by (simp add: keeps_def)
qed

lemma cleanOrCompare_clean:
  assumes "cleanInstall this \<or> cleanInstallFull this" "cleanOrCompare this w = (r, w')"
  shows "invalidated (commonNodeModulesMarkerFilename (rushConfiguration this))
           (npmInstallArgs (rushConfiguration this)) w w' \<and>
         (r = Inr (True, True) \<or>
          (\<exists>e. r = Inl e \<and> command_failure w (npmInstallArgs (rushConfiguration this)) e))"
proof -
  let ?cfg = "rushConfiguration this"
  let ?rest = "andThen (whenM (existsSync (commonNodeModulesFolder ?cfg))
                (andThen (dangerouslyDeletePath (commonNodeModulesFolder ?cfg))
                   (\<lambda>_. createFolderWithRetry (commonNodeModulesFolder ?cfg)))) (\<lambda>_.
      andThen (case configured (cacheFolder ?cfg) of
                 Some c \<Rightarrow> executeCommand (npmToolFilename ?cfg) (cacheCleanArgs c) (commonFolder ?cfg)
               | None \<Rightarrow> ret ()) (\<lambda>_.
      ret (True, True)))"
  have run: "andThen (whenM (existsSync (commonNodeModulesMarkerFilename ?cfg))
                 (unlinkSync (commonNodeModulesMarkerFilename ?cfg))) (\<lambda>_. ?rest) w = (r, w')"
    using assms by (simp add: cleanOrCompare_def Let_def)
  note u = unlink_then_keeps [OF keeps_clean_rest run]
  have "r = Inr (True, True) \<or> (\<exists>e. r = Inl e)"
    using run
    by (auto simp: andThen_def whenM_def ret_def split: prod.splits sum.splits if_splits option.splits)
  then show ?thesis using u by blast
qed

lemma cleanOrCompare_compare:
  assumes "\<not> cleanInstall this" "\<not> cleanInstallFull this"
  shows "cleanOrCompare this w =
     (Inr (\<not> isFileTimestampCurrent (commonNodeModulesMarkerFilename (rushConfiguration this))
               (packageJsonFilenames this) w, False), w)"
  using assms by (simp add: cleanOrCompare_def Let_def ret_def)

lemma startInstall_invalidated:
  assumes "startInstall cfg skipPrune w = (r, w')"
  shows "invalidated (commonNodeModulesMarkerFilename cfg) a w w' \<and>
         r = Inr (if existsSync (commonNodeModulesMarkerFilename cfg) w then skipPrune else True)"
proof (cases "existsSync (commonNodeModulesMarkerFilename cfg) w")
  case True
  obtain r1 w1 where u: "unlinkSync (commonNodeModulesMarkerFilename cfg) w = (r1, w1)"
    by (cases "unlinkSync (commonNodeModulesMarkerFilename cfg) w")
  from unlinkSync_invalidated [OF u True, of a] assms True u show ?thesis
    by (simp add: startInstall_def Let_def andThen_def ret_def)
next
  case False
  have k: "keeps (commonNodeModulesMarkerFilename cfg) a
     (andThen (whenM (existsSync (commonNodeModulesFolder cfg))
                 (recycleDirectory cfg (commonNodeModulesFolder cfg))) (\<lambda>_. ret True))"
    by (rule keeps_andThen, rule keeps_whenM) (simp_all add: keeps_recycleDirectory keeps_ret)
  have run: "andThen (whenM (existsSync (commonNodeModulesFolder cfg))
                 (recycleDirectory cfg (commonNodeModulesFolder cfg))) (\<lambda>_. ret True) w = (r, w')"
    using assms False by (simp add: startInstall_def Let_def)
  have abs: "files w (commonNodeModulesMarkerFilename cfg) = None"
    using False by (simp add: existsSync_def)
  have "r = Inr True"
    using run by (auto simp: andThen_def whenM_def ret_def recycleDirectory_def split: if_splits)
  then show ?thesis using k run abs False by (simp add: keeps_def)
qed


lemma createFileSync_absent:
  assumes "createFileSync p w = (r, w')" "files w p = None"
  shows "r = Inr ()" "history w' = history w @ [(CreateFile p, files w)]"
    "files w' = (files w)(p \<mapsto> \<lparr>mtime = now w, content = []\<rparr>)"
    "same_outside w w'" "invocations w' = invocations w"
  using assms
  by (auto simp: createFileSync_def record_event_def existsSync_def same_outside_def)

lemma runInstall_result:
  assumes "runInstall cfg w = (r, w')" "files w (commonNodeModulesMarkerFilename cfg) = None"
  shows "same_outside w w' \<and>
     (\<exists>j \<le> MAX_INSTALL_ATTEMPTS. 0 < j \<and>
        invocations w' (npmInstallArgs cfg) = invocations w (npmInstallArgs cfg) + j \<and>
        (r = Inr () \<and>
         exit_status w (npmInstallArgs cfg) (invocations w (npmInstallArgs cfg) + (j - 1)) = 0 \<and>
         history w' = history w
            @ exec_events (npmToolFilename cfg) (npmInstallArgs cfg) (commonFolder cfg) w j
            @ [(CreateFile (commonNodeModulesMarkerFilename cfg), files w)] \<and>
         files w' = (files w)(commonNodeModulesMarkerFilename cfg \<mapsto> \<lparr>mtime = now w, content = []\<rparr>)
         \<or>
         (\<exists>i. r = Inl (CommandFailed (npmInstallArgs cfg) (exit_status w (npmInstallArgs cfg) i)) \<and>
              exit_status w (npmInstallArgs cfg) i \<noteq> 0) \<and>
         history w' = history w
            @ exec_events (npmToolFilename cfg) (npmInstallArgs cfg) (commonFolder cfg) w j \<and>
         files w' = files w))"
proof -
  let ?a = "npmInstallArgs cfg" and ?marker = "commonNodeModulesMarkerFilename cfg"
  let ?ev = "exec_events (npmToolFilename cfg) ?a (commonFolder cfg) w"
  obtain r1 w1 where e: "executeCommandWithRetry (npmToolFilename cfg) ?a
      MAX_INSTALL_ATTEMPTS (commonFolder cfg) w = (r1, w1)"
    by (cases "executeCommandWithRetry (npmToolFilename cfg) ?a
      MAX_INSTALL_ATTEMPTS (commonFolder cfg) w")
  note rf = retry_fields [OF e]
  have fr: "files w1 = files w" by (rule rf [THEN conjunct1])
  have so: "same_outside w w1" by (rule rf [THEN conjunct2, THEN conjunct1])
  have res: "r1 = Inr () \<or> r1 = Inl NoAttempts \<or>
          (\<exists>i. r1 = Inl (CommandFailed ?a (exit_status w ?a i)) \<and> exit_status w ?a i \<noteq> 0)"
    by (rule rf [THEN conjunct2, THEN conjunct2, THEN conjunct2, THEN conjunct2])
  from rf [THEN conjunct2, THEN conjunct2, THEN conjunct2, THEN conjunct1]
  obtain j where j: "j \<le> MAX_INSTALL_ATTEMPTS"
    and jp: "0 < MAX_INSTALL_ATTEMPTS \<longrightarrow> 0 < j"
    and h: "history w1 = history w @ ?ev j"
    and iv: "invocations w1 ?a = invocations w ?a + j"
    and ok: "r1 = Inr () \<longrightarrow> 0 < j \<and> exit_status w ?a (invocations w ?a + (j - 1)) = 0"
    by (elim exE conjE)
  have jpos: "0 < j" using jp by simp
  have no: "r1 \<noteq> Inl NoAttempts" using retry_attempts [OF _ e] by simp
  show ?thesis
  proof (cases r1)
    case (Inl err)
    then have eq: "r = r1" "w' = w1" using assms(1) e by (simp_all add: runInstall_def andThen_def)
    have fail: "\<exists>i. r = Inl (CommandFailed ?a (exit_status w ?a i)) \<and> exit_status w ?a i \<noteq> 0"
      using res no Inl eq(1) by auto
    have so': "same_outside w w'" using so eq by simp
    have "(\<exists>i. r = Inl (CommandFailed ?a (exit_status w ?a i)) \<and> exit_status w ?a i \<noteq> 0) \<and>
         history w' = history w @ ?ev j \<and> files w' = files w"
      using fail h fr eq(2) by simp
    then have body: "j \<le> MAX_INSTALL_ATTEMPTS \<and> 0 < j \<and>
        invocations w' ?a = invocations w ?a + j \<and>
        (r = Inr () \<and>
         exit_status w ?a (invocations w ?a + (j - 1)) = 0 \<and>
         history w' = history w @ ?ev j @ [(CreateFile ?marker, files w)] \<and>
         files w' = (files w)(?marker \<mapsto> \<lparr>mtime = now w, content = []\<rparr>)
         \<or>
         (\<exists>i. r = Inl (CommandFailed ?a (exit_status w ?a i)) \<and> exit_status w ?a i \<noteq> 0) \<and>
         history w' = history w @ ?ev j \<and> files w' = files w)"
      using j jpos iv eq(2) by (intro conjI disjI2) simp_all
    show ?thesis
      apply (rule conjI)
       apply (rule so')
      apply (rule exI [of _ j])
      apply (rule body)
      done
  next
    case (Inr u)
    then have c: "createFileSync ?marker w1 = (r, w')"
      using assms(1) e by (simp add: runInstall_def andThen_def)
    have abs1: "files w1 ?marker = None" using fr assms(2) by simp
    note cf = createFileSync_absent [OF c abs1]
    have r1: "r1 = Inr ()" using Inr by simp
    have nw: "now w1 = now w" using so by (simp add: same_outside_def)
    have so': "same_outside w w'" using so cf(4) by (simp add: same_outside_def)
    have g: "exit_status w ?a (invocations w ?a + (j - 1)) = 0" using ok r1 by blast
    have hh: "history w' = history w @ ?ev j @ [(CreateFile ?marker, files w)]"
      using cf(2) h fr by simp
    have ff: "files w' = (files w)(?marker \<mapsto> \<lparr>mtime = now w, content = []\<rparr>)"
      using cf(3) fr nw by simp
    have "r = Inr () \<and>
         exit_status w ?a (invocations w ?a + (j - 1)) = 0 \<and>
         history w' = history w @ ?ev j @ [(CreateFile ?marker, files w)] \<and>
         files w' = (files w)(?marker \<mapsto> \<lparr>mtime = now w, content = []\<rparr>)"
      by (intro conjI) (rule cf(1) g hh ff)+
    then have body: "j \<le> MAX_INSTALL_ATTEMPTS \<and> 0 < j \<and>
        invocations w' ?a = invocations w ?a + j \<and>
        (r = Inr () \<and>
         exit_status w ?a (invocations w ?a + (j - 1)) = 0 \<and>
         history w' = history w @ ?ev j @ [(CreateFile ?marker, files w)] \<and>
         files w' = (files w)(?marker \<mapsto> \<lparr>mtime = now w, content = []\<rparr>)
         \<or>
         (\<exists>i. r = Inl (CommandFailed ?a (exit_status w ?a i)) \<and> exit_status w ?a i \<noteq> 0) \<and>
         history w' = history w @ ?ev j \<and> files w' = files w)"
      using j jpos iv cf(5) by (intro conjI disjI1) (simp_all del: One_nat_def)
    show ?thesis
      apply (rule conjI)
       apply (rule so')
      apply (rule exI [of _ j])
      apply (rule body)
      done
  qed
qed

lemma andThen_eq:
  "m w = (r0, w0) \<Longrightarrow>
   andThen m f w = (case r0 of Inl e \<Rightarrow> (Inl e, w0) | Inr x \<Rightarrow> f x w0)"
  by (simp add: andThen_def)

lemma install_steps:
  assumes run: "andThen (startInstall cfg skipPrune) (\<lambda>skipPrune'.
        andThen (if \<not> skipPrune' then pruneTempProjects cfg else ret ()) (\<lambda>_.
        runInstall cfg)) w0 = (r, w')"
  shows "\<exists>wm. invalidated (commonNodeModulesMarkerFilename cfg) (npmInstallArgs cfg) w0 wm \<and>
     ((\<exists>e. r = Inl e \<and> command_failure w0 (npmInstallArgs cfg) e) \<and> w' = wm \<or>
      runInstall cfg wm = (r, w'))"
proof -
  let ?marker = "commonNodeModulesMarkerFilename cfg" and ?a = "npmInstallArgs cfg"
  obtain r1 w1 where s: "startInstall cfg skipPrune w0 = (r1, w1)"
    by (cases "startInstall cfg skipPrune w0")
  from startInstall_invalidated [OF s, of ?a] obtain skip where
    i1: "invalidated ?marker ?a w0 w1" and r1: "r1 = Inr skip" by blast
  have abs1: "files w1 ?marker = None" using i1 by (simp add: invalidated_def)
  show ?thesis
  proof (cases skip)
    case True
    then have "runInstall cfg w1 = (r, w')"
      using run s r1 by (simp add: andThen_def ret_def)
    then show ?thesis using i1 by blast
  next
    case False
    obtain r2 w2 where p: "pruneTempProjects cfg w1 = (r2, w2)"
      by (cases "pruneTempProjects cfg w1")
    from keeps_pruneTempProjects [of cfg] abs1 p
    have i2: "invalidated ?marker ?a w1 w2" and e2: "\<forall>e. r2 = Inl e \<longrightarrow> command_failure w1 ?a e"
      by (simp_all add: keeps_def)
    have i02: "invalidated ?marker ?a w0 w2" using i1 i2 invalidated_trans by blast
    show ?thesis
    proof (cases r2)
      case (Inl e)
      then have "r = Inl e" "w' = w2"
        using run s r1 False p by (simp_all add: andThen_def)
      moreover have "command_failure w0 ?a e"
        using e2 Inl i1 command_failure_later by blast
      ultimately show ?thesis using i02 by blast
    next
      case (Inr u)
      then have "runInstall cfg w2 = (r, w')"
        using run s r1 False p by (simp add: andThen_def)
      then show ?thesis using i02 by blast
    qed
  qed
qed

lemma installCommonModules_shape:
  assumes run: "installCommonModules this w = (r, w')"
  shows "(\<not> existsSync (npmToolFilename (rushConfiguration this)) w \<and>
          r = Inl (ToolMissing (npmToolFilename (rushConfiguration this))) \<and> w' = w)
       \<or> (existsSync (npmToolFilename (rushConfiguration this)) w \<and>
          \<not> needs_install this w \<and> r = Inr () \<and> w' = w)
       \<or> (existsSync (npmToolFilename (rushConfiguration this)) w \<and> needs_install this w \<and>
          (\<exists>wm. invalidated (commonNodeModulesMarkerFilename (rushConfiguration this))
                   (npmInstallArgs (rushConfiguration this)) w wm \<and>
             ((\<exists>e. r = Inl e \<and> command_failure w (npmInstallArgs (rushConfiguration this)) e)
                \<and> w' = wm
              \<or> runInstall (rushConfiguration this) wm = (r, w'))))"
proof (cases "existsSync (npmToolFilename (rushConfiguration this)) w")
  case False
  then show ?thesis using run by (simp add: installCommonModules_def Let_def)
next
  case tool: True
  let ?cfg = "rushConfiguration this"
  let ?marker = "commonNodeModulesMarkerFilename ?cfg" and ?a = "npmInstallArgs ?cfg"
  let ?steps = "\<lambda>skipPrune. andThen (startInstall ?cfg skipPrune) (\<lambda>skipPrune'.
        andThen (if \<not> skipPrune' then pruneTempProjects ?cfg else ret ()) (\<lambda>_.
        runInstall ?cfg))"
  obtain r0 w0 where c: "cleanOrCompare this w = (r0, w0)" by (cases "cleanOrCompare this w")
  have "andThen (cleanOrCompare this) (\<lambda>(needToInstall, skipPrune).
            if needToInstall then ?steps skipPrune else ret ()) w = (r, w')"
    using run tool by (simp add: installCommonModules_def Let_def)
  then have run': "(case r0 of Inl e \<Rightarrow> (Inl e, w0)
              | Inr x \<Rightarrow> (case x of (needToInstall, skipPrune) \<Rightarrow>
                  if needToInstall then ?steps skipPrune else ret ()) w0) = (r, w')"
    by (simp only: andThen_eq [of "cleanOrCompare this" w r0 w0, OF c])
  show ?thesis
  proof (cases "cleanInstall this \<or> cleanInstallFull this")
    case True
    then have need: "needs_install this w" by (auto simp: needs_install_def)
    from cleanOrCompare_clean [OF True c]
    have i0: "invalidated ?marker ?a w w0"
      and r0: "r0 = Inr (True, True) \<or> (\<exists>e. r0 = Inl e \<and> command_failure w ?a e)"
      by simp_all
    from r0 show ?thesis
    proof
      assume "r0 = Inr (True, True)"
      then have "?steps True w0 = (r, w')" using run' by simp
      from install_steps [OF this] obtain wm where
        "invalidated ?marker ?a w0 wm"
        "(\<exists>e. r = Inl e \<and> command_failure w0 ?a e) \<and> w' = wm \<or> runInstall ?cfg wm = (r, w')"
        by blast
      then have "invalidated ?marker ?a w wm \<and>
         ((\<exists>e. r = Inl e \<and> command_failure w ?a e) \<and> w' = wm \<or> runInstall ?cfg wm = (r, w'))"
        using i0 invalidated_trans command_failure_later by blast
      then show ?thesis using tool need by blast
    next
      assume "\<exists>e. r0 = Inl e \<and> command_failure w ?a e"
      then obtain e where "r0 = Inl e" "command_failure w ?a e" by blast
      then have "(\<exists>e. r = Inl e \<and> command_failure w ?a e) \<and> w' = w0" using run' by auto
      then show ?thesis using tool need i0 by blast
    qed
  next
    case False
    then have c': "r0 = Inr (\<not> isFileTimestampCurrent ?marker (packageJsonFilenames this) w, False)"
      "w0 = w"
      using c cleanOrCompare_compare [of this w] by auto
    show ?thesis
    proof (cases "isFileTimestampCurrent ?marker (packageJsonFilenames this) w")
      case True
      then have "\<not> needs_install this w" using False by (simp add: needs_install_def)
      moreover have "r = Inr ()" "w' = w" using run' c' True by (simp_all add: ret_def)
      ultimately show ?thesis using tool by simp
    next
      case nc: False
      then have need: "needs_install this w" by (simp add: needs_install_def)
      have "?steps False w = (r, w')" using run' c' nc by simp
      from install_steps [OF this] show ?thesis using tool need by blast
    qed
  qed
qed

lemma new_events_append: "history w' = history w @ evs \<Longrightarrow> new_events w w' = evs"
  by (simp add: new_events_def)

lemma install_run_cases:
  fixes this w
  defines "cfg \<equiv> rushConfiguration this"
  defines "marker \<equiv> commonNodeModulesMarkerFilename cfg"
  defines "a \<equiv> npmInstallArgs cfg"
  assumes run: "installCommonModules this w = (r, w')"
    and tool: "existsSync (npmToolFilename cfg) w"
    and need: "needs_install this w"
  obtains (early) evs e where
      "new_events w w' = evs" "safe_events marker evs"
      "files w marker = None \<or> evs \<noteq> [] \<and> hd evs = (Unlink marker, files w)"
      "r = Inl e" "command_failure w a e" "files w' marker = None"
    | (failed) evs wm j i where
      "new_events w w' = evs @ exec_events (npmToolFilename cfg) a (commonFolder cfg) wm j"
      "safe_events marker evs"
      "files w marker = None \<or> evs \<noteq> [] \<and> hd evs = (Unlink marker, files w)"
      "files wm marker = None" "exit_status wm = exit_status w"
      "invocations wm a = invocations w a"
      "0 < j" "j \<le> MAX_INSTALL_ATTEMPTS"
      "r = Inl (CommandFailed a (exit_status w a i))" "exit_status w a i \<noteq> 0"
      "files w' marker = None" "runInstall cfg wm = (r, w')"
    | (installed) evs wm j where
      "new_events w w' = evs @ exec_events (npmToolFilename cfg) a (commonFolder cfg) wm j
          @ [(CreateFile marker, files wm)]"
      "safe_events marker evs"
      "files w marker = None \<or> evs \<noteq> [] \<and> hd evs = (Unlink marker, files w)"
      "files wm marker = None" "exit_status wm = exit_status w"
      "invocations wm a = invocations w a"
      "0 < j" "j \<le> MAX_INSTALL_ATTEMPTS"
      "r = Inr ()" "attempt_status w a j = 0"
      "files w' marker = Some \<lparr>mtime = now w, content = []\<rparr>" "runInstall cfg wm = (r, w')"
proof -
  from installCommonModules_shape [OF run] tool need obtain wm where
    inv: "invalidated marker a w wm" and
    alt: "(\<exists>e. r = Inl e \<and> command_failure w a e) \<and> w' = wm \<or> runInstall cfg wm = (r, w')"
    unfolding cfg_def marker_def a_def by blast
  from inv obtain evs where evs: "history wm = history w @ evs" "safe_events marker evs"
    "files w marker = None \<or> evs \<noteq> [] \<and> hd evs = (Unlink marker, files w)"
    and abs: "files wm marker = None" and so: "same_outside w wm"
    and iv: "invocations wm a = invocations w a"
    unfolding invalidated_def by blast
  have es: "exit_status wm = exit_status w" "now wm = now w"
    using so by (simp_all add: same_outside_def)
  from alt show thesis
  proof
    assume e: "(\<exists>e. r = Inl e \<and> command_failure w a e) \<and> w' = wm"
    then obtain e where e': "r = Inl e" "command_failure w a e" "w' = wm" by blast
    have "new_events w w' = evs" using evs(1) e'(3) by (simp add: new_events_def)
    then show thesis using early evs(2,3) e' abs by simp
  next
    assume ri: "runInstall cfg wm = (r, w')"
    note rr = runInstall_result [OF ri abs [unfolded marker_def], folded marker_def a_def]
    from rr [THEN conjunct2] obtain j where j: "j \<le> MAX_INSTALL_ATTEMPTS" "0 < j"
      and res: "r = Inr () \<and>
         exit_status wm a (invocations wm a + (j - 1)) = 0 \<and>
         history w' = history wm
            @ exec_events (npmToolFilename cfg) a (commonFolder cfg) wm j
            @ [(CreateFile marker, files wm)] \<and>
         files w' = (files wm)(marker \<mapsto> \<lparr>mtime = now wm, content = []\<rparr>)
         \<or>
         (\<exists>i. r = Inl (CommandFailed a (exit_status wm a i)) \<and>
              exit_status wm a i \<noteq> 0) \<and>
         history w' = history wm
            @ exec_events (npmToolFilename cfg) a (commonFolder cfg) wm j \<and>
         files w' = files wm"
      by (elim exE conjE)
    from res show thesis
    proof (elim disjE conjE exE)
      assume ok: "r = Inr ()" "exit_status wm a (invocations wm a + (j - 1)) = 0"
        and h: "history w' = history wm
            @ exec_events (npmToolFilename cfg) a (commonFolder cfg) wm j
            @ [(CreateFile marker, files wm)]"
        and f: "files w' = (files wm)(marker \<mapsto> \<lparr>mtime = now wm, content = []\<rparr>)"
      have ne: "new_events w w' = evs @ exec_events (npmToolFilename cfg) a (commonFolder cfg) wm j
          @ [(CreateFile marker, files wm)]"
        using h evs(1) by (simp add: new_events_def)
      have st: "attempt_status w a j = 0"
        using ok(2) es(1) iv by (simp add: attempt_status_def del: One_nat_def)
      have fm: "files w' marker = Some \<lparr>mtime = now w, content = []\<rparr>"
        using f es(2) by simp
      show thesis
        by (rule installed [OF ne evs(2) evs(3) abs es(1) iv j(2) j(1) ok(1) st fm ri])
    next
      fix i
      assume fl: "r = Inl (CommandFailed a (exit_status wm a i))" "exit_status wm a i \<noteq> 0"
        and h: "history w' = history wm
            @ exec_events (npmToolFilename cfg) a (commonFolder cfg) wm j"
        and f: "files w' = files wm"
      have ne: "new_events w w' = evs @ exec_events (npmToolFilename cfg) a (commonFolder cfg) wm j"
        using h evs(1) by (simp add: new_events_def)
      have fl': "r = Inl (CommandFailed a (exit_status w a i))" "exit_status w a i \<noteq> 0"
        using fl es(1) by simp_all
      have fm: "files w' marker = None" using f abs by simp
      show thesis
        by (rule failed [OF ne evs(2) evs(3) abs es(1) iv j(2) j(1) fl' fm ri])
    qed
  qed
qed

lemma safe_events_absent: "safe_events marker evs \<Longrightarrow> marker_absent_during marker evs"
  by (auto simp: safe_events_def marker_absent_during_def list_all_iff)

lemma safe_events_not_creates: "safe_events marker evs \<Longrightarrow> \<not> creates marker evs"
  by (auto simp: safe_events_def creates_def list_all_iff list_ex_iff)

lemma exec_events_absent:
  "files w marker = None \<Longrightarrow> marker_absent_during marker (exec_events c a d w j)"
  by (simp add: marker_absent_during_def exec_events_def list_all_iff)

lemma exec_events_not_creates: "\<not> creates marker (exec_events c a d w j)"
  by (simp add: creates_def exec_events_def list_ex_iff)

lemma marker_absent_during_append:
  "marker_absent_during marker (xs @ ys)
     = (marker_absent_during marker xs \<and> marker_absent_during marker ys)"
  by (simp add: marker_absent_during_def)

lemma creates_append: "creates marker (xs @ ys) = (creates marker xs \<or> creates marker ys)"
  by (simp add: creates_def)

lemma exec_events_last:
  "0 < j \<Longrightarrow> exec_events c a d w j
     = exec_events c a d w (j - 1)
       @ [(Exec c a d (exit_status w a (invocations w a + (j - 1))), files w)]"
  by (cases j) (simp_all add: exec_events_def)

lemma nothing_to_do:
  assumes "installCommonModules this w = (r, w')"
    "\<not> (existsSync (npmToolFilename (rushConfiguration this)) w \<and> needs_install this w)"
  shows "w' = w \<and> (r = Inr () \<or> r = Inl (ToolMissing (npmToolFilename (rushConfiguration this))))"
  using installCommonModules_shape [OF assms(1)] assms(2) by blast

text \<open>
  C3. In every run of \<^verbatim>\<open>_installCommonModules\<close>: every action on the file system and
  every run of the installer, apart from the deletion and the creation of the marker
  themselves, starts without the marker; when an install is needed and the marker is
  there, its deletion is the first event; the marker is created only by the last event of
  a successful run, directly after an \<^verbatim>\<open>npm install\<close> that exited with 0, and with empty
  content; a successful run that had to install creates it; and after a failed command
  the marker is absent.
\<close>

theorem marker_protocol:
  fixes this w
  defines "cfg \<equiv> rushConfiguration this"
  defines "marker \<equiv> commonNodeModulesMarkerFilename cfg"
  defines "a \<equiv> npmInstallArgs cfg"
  assumes run: "installCommonModules this w = (r, w')"
  shows "marker_absent_during marker (new_events w w')
     \<and> (existsSync (npmToolFilename cfg) w \<and> needs_install this w \<and> existsSync marker w
          \<longrightarrow> (\<exists>rest. new_events w w' = (Unlink marker, files w) # rest))
     \<and> (creates marker (new_events w w')
          \<longrightarrow> r = Inr () \<and> files w' marker = Some \<lparr>mtime = now w, content = []\<rparr> \<and>
              (\<exists>pre snap. new_events w w'
                   = pre @ [(Exec (npmToolFilename cfg) a (commonFolder cfg) 0, snap),
                            (CreateFile marker, snap)] \<and>
                 \<not> creates marker pre \<and> snap marker = None))
     \<and> (existsSync (npmToolFilename cfg) w \<and> needs_install this w \<and> r = Inr ()
          \<longrightarrow> creates marker (new_events w w'))
     \<and> (\<forall>b s. r = Inl (CommandFailed b s) \<longrightarrow> files w' marker = None)"
proof (cases "existsSync (npmToolFilename cfg) w \<and> needs_install this w")
  case False
  from nothing_to_do [OF run False [unfolded cfg_def]]
  have "w' = w" "r = Inr () \<or> r = Inl (ToolMissing (npmToolFilename (rushConfiguration this)))"
    by simp_all
  then show ?thesis using False
    by (auto simp: new_events_def marker_absent_during_def creates_def)
next
  case True
  then have tool: "existsSync (npmToolFilename cfg) w" and need: "needs_install this w"
    by simp_all
  from run tool [unfolded cfg_def] need show ?thesis
  proof (cases rule: install_run_cases)
    case (early evs e)
    have 1: "marker_absent_during marker (new_events w w')"
      using early(1,2) safe_events_absent by (simp add: marker_def cfg_def)
    have 2: "existsSync marker w \<longrightarrow> (\<exists>rest. new_events w w' = (Unlink marker, files w) # rest)"
      using early(1,3) by (cases evs) (auto simp: existsSync_def marker_def cfg_def)
    have 3: "\<not> creates marker (new_events w w')"
      using early(1,2) safe_events_not_creates by (simp add: marker_def cfg_def)
    have 4: "r \<noteq> Inr ()" using early(4) by simp
    have 5: "files w' marker = None" using early(6) by (simp add: marker_def cfg_def)
    show ?thesis using 1 2 3 4 5 by simp
  next
    case (failed evs wm j i)
    have 1: "marker_absent_during marker (new_events w w')"
      using failed(1,2,4) safe_events_absent exec_events_absent
      by (simp add: marker_def cfg_def marker_absent_during_append)
    have 2: "existsSync marker w \<longrightarrow> (\<exists>rest. new_events w w' = (Unlink marker, files w) # rest)"
      using failed(1,3) by (cases evs) (auto simp: existsSync_def marker_def cfg_def)
    have 3: "\<not> creates marker (new_events w w')"
      using failed(1,2) safe_events_not_creates exec_events_not_creates
      by (simp add: marker_def cfg_def creates_append)
    have 4: "r \<noteq> Inr ()" using failed(9) by simp
    have 5: "files w' marker = None" using failed(11) by (simp add: marker_def cfg_def)
    show ?thesis using 1 2 3 4 5 by simp
  next
    case (installed evs wm j)
    let ?tool = "npmToolFilename cfg" and ?dir = "commonFolder cfg"
    have abs: "files wm marker = None" using installed(4) by (simp add: marker_def cfg_def)
    have ne: "new_events w w' = evs @ exec_events ?tool a ?dir wm j @ [(CreateFile marker, files wm)]"
      using installed(1) by (simp add: marker_def cfg_def a_def)
    have safe: "safe_events marker evs" using installed(2) by (simp add: marker_def cfg_def)
    have 1: "marker_absent_during marker (new_events w w')"
      using ne safe abs safe_events_absent exec_events_absent
      by (simp add: marker_absent_during_append) (simp add: marker_absent_during_def)
    have 2: "existsSync marker w \<longrightarrow> (\<exists>rest. new_events w w' = (Unlink marker, files w) # rest)"
      using ne installed(3) by (cases evs) (auto simp: existsSync_def marker_def cfg_def)
    have st: "exit_status wm a (invocations wm a + (j - 1)) = 0"
      using installed(5,6,10) by (simp add: attempt_status_def a_def cfg_def del: One_nat_def)
    have last: "exec_events ?tool a ?dir wm j
       = exec_events ?tool a ?dir wm (j - 1) @ [(Exec ?tool a ?dir 0, files wm)]"
      using exec_events_last [OF installed(7), of ?tool a ?dir wm] st by (simp del: One_nat_def)
    have shape: "new_events w w'
       = (evs @ exec_events ?tool a ?dir wm (j - 1))
         @ [(Exec ?tool a ?dir 0, files wm), (CreateFile marker, files wm)]"
      using ne last by simp
    have pre: "\<not> creates marker (evs @ exec_events ?tool a ?dir wm (j - 1))"
      using safe safe_events_not_creates exec_events_not_creates by (simp add: creates_append)
    have 3: "\<exists>pre snap. new_events w w'
                   = pre @ [(Exec ?tool a ?dir 0, snap), (CreateFile marker, snap)] \<and>
                 \<not> creates marker pre \<and> snap marker = None"
      apply (rule exI [of _ "evs @ exec_events ?tool a ?dir wm (j - 1)"])
      apply (rule exI [of _ "files wm"])
      using shape pre abs apply simp
      done
    have 4: "creates marker (new_events w w')" using ne by (simp add: creates_append creates_def)
    have 5: "r = Inr ()" "files w' marker = Some \<lparr>mtime = now w, content = []\<rparr>"
      using installed(9,11) by (simp_all add: marker_def cfg_def)
    show ?thesis using 1 2 3 4 5 by simp
  qed
qed

theorem marker_protocol_witness:
  "fst (installCommonModules (install_ex False) (world_ex outdated_files (flaky_install 2))) = Inr ()
   \<and> map fst (new_events (world_ex outdated_files (flaky_install 2))
        (snd (installCommonModules (install_ex False) (world_ex outdated_files (flaky_install 2)))))
      = [Unlink marker_ex, Exec tool_ex [''prune''] ''/repo/common'' 0,
         Exec tool_ex [''install''] ''/repo/common'' 1, Exec tool_ex [''install''] ''/repo/common'' 1,
         Exec tool_ex [''install''] ''/repo/common'' 0, CreateFile marker_ex]
   \<and> marker_absent_during marker_ex (new_events (world_ex outdated_files (flaky_install 2))
        (snd (installCommonModules (install_ex False) (world_ex outdated_files (flaky_install 2)))))
   \<and> files (snd (installCommonModules (install_ex False) (world_ex outdated_files (flaky_install 2))))
        marker_ex = Some \<lparr>mtime = 100, content = []\<rparr>
   \<and> fst (installCommonModules (install_ex False) (world_ex outdated_files (flaky_install 5)))
        = Inl (CommandFailed [''install''] 1)
   \<and> marker_absent_during marker_ex (new_events (world_ex outdated_files (flaky_install 5))
        (snd (installCommonModules (install_ex False) (world_ex outdated_files (flaky_install 5)))))
   \<and> files (snd (installCommonModules (install_ex False) (world_ex outdated_files (flaky_install 5))))
        marker_ex = None"
proof -
  let ?w = "\<lambda>n. world_ex outdated_files (flaky_install n)"
  let ?run = "\<lambda>n. installCommonModules (install_ex False) (?w n)"
  have m: "commonNodeModulesMarkerFilename (rushConfiguration (install_ex False)) = marker_ex"
    by code_simp
  have pre: "existsSync (npmToolFilename (rushConfiguration (install_ex False))) (?w 2)"
    "needs_install (install_ex False) (?w 2)" "existsSync marker_ex (?w 2)" "now (?w 2) = 100"
    by code_simp+
  have r2: "fst (?run 2) = Inr ()" by code_simp
  have ev2: "map fst (new_events (?w 2) (snd (?run 2)))
      = [Unlink marker_ex, Exec tool_ex [''prune''] ''/repo/common'' 0,
         Exec tool_ex [''install''] ''/repo/common'' 1, Exec tool_ex [''install''] ''/repo/common'' 1,
         Exec tool_ex [''install''] ''/repo/common'' 0, CreateFile marker_ex]"
    by code_simp
  have r5: "fst (?run 5) = Inl (CommandFailed [''install''] 1)" by code_simp
  have run2: "?run 2 = (Inr (), snd (?run 2))" using r2 by (metis prod.collapse)
  have run5: "?run 5 = (Inl (CommandFailed [''install''] 1), snd (?run 5))"
    using r5 by (metis prod.collapse)
  note p2 = marker_protocol [OF run2, unfolded m]
  note p5 = marker_protocol [OF run5, unfolded m]
  have cr: "creates marker_ex (new_events (?w 2) (snd (?run 2)))"
    using p2 pre by simp
  have "marker_absent_during marker_ex (new_events (?w 2) (snd (?run 2)))"
    "files (snd (?run 2)) marker_ex = Some \<lparr>mtime = 100, content = []\<rparr>"
    using p2 cr pre(4) by simp_all
  moreover have "marker_absent_during marker_ex (new_events (?w 5) (snd (?run 5)))"
    "files (snd (?run 5)) marker_ex = None"
    using p5 by simp_all
  ultimately show ?thesis using r2 ev2 r5 by simp
qed

lemma runInstall_success:
  assumes "k < MAX_INSTALL_ATTEMPTS"
    "\<forall>i<k. exit_status w (npmInstallArgs cfg) (invocations w (npmInstallArgs cfg) + i) \<noteq> 0"
    "exit_status w (npmInstallArgs cfg) (invocations w (npmInstallArgs cfg) + k) = 0"
    "runInstall cfg w = (r, w')"
  shows "r = Inr ()"
proof -
  obtain r1 w1 where e: "executeCommandWithRetry (npmToolFilename cfg) (npmInstallArgs cfg)
      MAX_INSTALL_ATTEMPTS (commonFolder cfg) w = (r1, w1)"
    by (cases "executeCommandWithRetry (npmToolFilename cfg) (npmInstallArgs cfg)
      MAX_INSTALL_ATTEMPTS (commonFolder cfg) w")
  from retry_success [OF assms(1,2,3) e] have "r1 = Inr ()" by simp
  then show ?thesis using assms(4) e
    by (simp add: runInstall_def andThen_def createFileSync_def)
qed

text \<open>
  C4. In a run that has to install (the tool is there, and a clean was forced or the
  marker is not current): if every other command exits with 0 and \<^verbatim>\<open>npm install\<close> exits
  with a nonzero status on the attempts 1 to \<open>k - 1\<close> and with 0 on attempt \<open>k\<close>, for a
  \<open>k\<close> of at most 5, the run succeeds and creates the marker, with empty content; if
  \<^verbatim>\<open>npm install\<close> exits with a nonzero status on each of the attempts 1 to 5, the run
  fails, the marker is absent afterwards and no event created it.
\<close>

theorem install_retry:
  fixes this w
  defines "cfg \<equiv> rushConfiguration this"
  defines "marker \<equiv> commonNodeModulesMarkerFilename cfg"
  defines "a \<equiv> npmInstallArgs cfg"
  assumes run: "installCommonModules this w = (r, w')"
    and tool: "existsSync (npmToolFilename cfg) w"
    and need: "needs_install this w"
  shows "(\<forall>k. 1 \<le> k \<and> k \<le> MAX_INSTALL_ATTEMPTS \<and> others_succeed w a \<and>
              (\<forall>i. 1 \<le> i \<and> i < k \<longrightarrow> attempt_status w a i \<noteq> 0) \<and> attempt_status w a k = 0
            \<longrightarrow> r = Inr () \<and> files w' marker = Some \<lparr>mtime = now w, content = []\<rparr> \<and>
                creates marker (new_events w w'))
       \<and> ((\<forall>i. 1 \<le> i \<and> i \<le> MAX_INSTALL_ATTEMPTS \<longrightarrow> attempt_status w a i \<noteq> 0)
            \<longrightarrow> (\<exists>e. r = Inl e) \<and> files w' marker = None \<and> \<not> creates marker (new_events w w'))"
  using run tool [unfolded cfg_def] need
proof (cases rule: install_run_cases)
  case (early evs e)
  have nc: "\<not> creates marker (new_events w w')"
    using early(1,2) safe_events_not_creates by (simp add: marker_def cfg_def)
  have no: "\<not> others_succeed w a"
    using early(5) by (auto simp: command_failure_def others_succeed_def a_def cfg_def)
  show ?thesis using early(4,6) nc no by (simp add: marker_def cfg_def)
next
  case (failed evs wm j i)
  have ri: "runInstall cfg wm = (r, w')" using failed(12) by (simp add: cfg_def)
  have es: "exit_status wm = exit_status w" by (rule failed(5))
  have iv: "invocations wm a = invocations w a" using failed(6) by (simp add: a_def cfg_def)
  have nc: "\<not> creates marker (new_events w w')"
    using failed(1,2) safe_events_not_creates exec_events_not_creates
    by (simp add: marker_def cfg_def creates_append)
  have no: "\<not> (\<exists>k. 1 \<le> k \<and> k \<le> MAX_INSTALL_ATTEMPTS \<and>
              (\<forall>i. 1 \<le> i \<and> i < k \<longrightarrow> attempt_status w a i \<noteq> 0) \<and> attempt_status w a k = 0)"
  proof
    assume "\<exists>k. 1 \<le> k \<and> k \<le> MAX_INSTALL_ATTEMPTS \<and>
              (\<forall>i. 1 \<le> i \<and> i < k \<longrightarrow> attempt_status w a i \<noteq> 0) \<and> attempt_status w a k = 0"
    then obtain k where k: "1 \<le> k" "k \<le> MAX_INSTALL_ATTEMPTS"
      "\<forall>i. 1 \<le> i \<and> i < k \<longrightarrow> attempt_status w a i \<noteq> 0" "attempt_status w a k = 0"
      by blast
    have 1: "k - 1 < MAX_INSTALL_ATTEMPTS" using k(1,2) by simp
    have 2: "\<forall>i<k - 1. exit_status wm (npmInstallArgs cfg)
                (invocations wm (npmInstallArgs cfg) + i) \<noteq> 0"
    proof (intro allI impI)
      fix i assume "i < k - 1"
      then have "1 \<le> Suc i \<and> Suc i < k" by simp
      then have "attempt_status w a (Suc i) \<noteq> 0" using k(3) by blast
      then show "exit_status wm (npmInstallArgs cfg) (invocations wm (npmInstallArgs cfg) + i) \<noteq> 0"
        using es iv by (simp add: attempt_status_def a_def)
    qed
    have 3: "exit_status wm (npmInstallArgs cfg) (invocations wm (npmInstallArgs cfg) + (k - 1)) = 0"
      using k(4) es iv by (simp add: attempt_status_def a_def del: One_nat_def)
    from runInstall_success [OF 1 2 3 ri] failed(9) show False by simp
  qed
  have fm: "files w' marker = None" using failed(11) by (simp add: marker_def cfg_def)
  show ?thesis using failed(9) fm nc no by blast
next
  case (installed evs wm j)
  have cr: "creates marker (new_events w w')"
    using installed(1) by (simp add: creates_append creates_def marker_def cfg_def)
  have fm: "files w' marker = Some \<lparr>mtime = now w, content = []\<rparr>"
    using installed(11) by (simp add: marker_def cfg_def)
  have "1 \<le> j \<and> j \<le> MAX_INSTALL_ATTEMPTS \<and> attempt_status w a j = 0"
    using installed(7,8,10) by (simp add: a_def cfg_def)
  then have no: "\<not> (\<forall>i. 1 \<le> i \<and> i \<le> MAX_INSTALL_ATTEMPTS \<longrightarrow> attempt_status w a i \<noteq> 0)"
    by blast
  show ?thesis using installed(9) fm cr no by blast
qed

theorem install_retry_witness:
  "existsSync tool_ex (world_ex interrupted_files (flaky_install 2))
   \<and> needs_install (install_ex False) (world_ex interrupted_files (flaky_install 2))
   \<and> others_succeed (world_ex interrupted_files (flaky_install 2)) [''install'']
   \<and> attempt_status (world_ex interrupted_files (flaky_install 2)) [''install''] 1 = 1
   \<and> attempt_status (world_ex interrupted_files (flaky_install 2)) [''install''] 2 = 1
   \<and> attempt_status (world_ex interrupted_files (flaky_install 2)) [''install''] 3 = 0
   \<and> fst (installCommonModules (install_ex False) (world_ex interrupted_files (flaky_install 2)))
        = Inr ()
   \<and> files (snd (installCommonModules (install_ex False) (world_ex interrupted_files (flaky_install 2))))
        marker_ex = Some \<lparr>mtime = 100, content = []\<rparr>
   \<and> existsSync tool_ex (world_ex outdated_files (flaky_install 5))
   \<and> needs_install (install_ex False) (world_ex outdated_files (flaky_install 5))
   \<and> (\<exists>e. fst (installCommonModules (install_ex False) (world_ex outdated_files (flaky_install 5)))
          = Inl e)
   \<and> files (snd (installCommonModules (install_ex False) (world_ex outdated_files (flaky_install 5))))
        marker_ex = None
   \<and> \<not> creates marker_ex (new_events (world_ex outdated_files (flaky_install 5))
        (snd (installCommonModules (install_ex False) (world_ex outdated_files (flaky_install 5)))))"
proof -
  let ?w2 = "world_ex interrupted_files (flaky_install 2)"
  let ?w5 = "world_ex outdated_files (flaky_install 5)"
  let ?run = "installCommonModules (install_ex False)"
  have m: "commonNodeModulesMarkerFilename (rushConfiguration (install_ex False)) = marker_ex"
    "npmInstallArgs (rushConfiguration (install_ex False)) = [''install'']"
    "npmToolFilename (rushConfiguration (install_ex False)) = tool_ex"
    "MAX_INSTALL_ATTEMPTS = 5"
    by code_simp+
  have pre2: "existsSync tool_ex ?w2" "needs_install (install_ex False) ?w2" "now ?w2 = 100"
    by code_simp+
  have os: "others_succeed ?w2 [''install'']"
    by (simp add: others_succeed_def world_ex_def flaky_install_def)
  have st: "attempt_status ?w2 [''install''] 1 = 1" "attempt_status ?w2 [''install''] 2 = 1"
    "attempt_status ?w2 [''install''] 3 = 0"
    by code_simp+
  have before: "\<forall>i. 1 \<le> i \<and> i < 3 \<longrightarrow> attempt_status ?w2 [''install''] i \<noteq> 0"
  proof (intro allI impI)
    fix i :: nat assume "1 \<le> i \<and> i < 3"
    then have "i = 1 \<or> i = 2" by auto
    then show "attempt_status ?w2 [''install''] i \<noteq> 0" using st by auto
  qed
  have pre5: "existsSync tool_ex ?w5" "needs_install (install_ex False) ?w5"
    by code_simp+
  have all5: "\<forall>i. 1 \<le> i \<and> i \<le> 5 \<longrightarrow> attempt_status ?w5 [''install''] i \<noteq> 0"
    by (auto simp: attempt_status_def world_ex_def flaky_install_def)
  have run2: "?run ?w2 = (fst (?run ?w2), snd (?run ?w2))" by simp
  have run5: "?run ?w5 = (fst (?run ?w5), snd (?run ?w5))" by simp
  have s2: "fst (?run ?w2) = Inr () \<and> files (snd (?run ?w2)) marker_ex
          = Some \<lparr>mtime = 100, content = []\<rparr>"
    using install_retry [OF run2, unfolded m, OF pre2(1,2), THEN conjunct1, THEN spec, of 3]
      os before st pre2(3)
    by simp
  have s5: "(\<exists>e. fst (?run ?w5) = Inl e) \<and> files (snd (?run ?w5)) marker_ex = None \<and>
      \<not> creates marker_ex (new_events ?w5 (snd (?run ?w5)))"
    using install_retry [OF run5, unfolded m, OF pre5, THEN conjunct2] all5
    by simp
  show ?thesis using pre2 os st s2 pre5 s5 by simp
qed

lemma retry_ok_iff:
  assumes "executeCommandWithRetry c a n d w = (r, w')"
  shows "(r = Inr ()) = (\<exists>k<n. exit_status w a (invocations w a + k) = 0)"
proof
  assume ok: "r = Inr ()"
  from retry_fields [OF assms, THEN conjunct2, THEN conjunct2, THEN conjunct2, THEN conjunct1]
  obtain j where "j \<le> n"
    "r = Inr () \<longrightarrow> 0 < j \<and> exit_status w a (invocations w a + (j - 1)) = 0"
    by (elim exE conjE)
  then have "j - 1 < n" "exit_status w a (invocations w a + (j - 1)) = 0" using ok by auto
  then show "\<exists>k<n. exit_status w a (invocations w a + k) = 0" by blast
next
  let ?P = "\<lambda>k. exit_status w a (invocations w a + k) = 0"
  assume "\<exists>k<n. ?P k"
  then obtain k0 where k0: "k0 < n" "?P k0" by blast
  define k where "k = (LEAST k. ?P k)"
  have pk: "?P k" unfolding k_def using k0(2) by (rule LeastI)
  have le: "k \<le> k0" unfolding k_def using k0(2) by (rule Least_le)
  have before: "\<forall>i<k. exit_status w a (invocations w a + i) \<noteq> 0"
    unfolding k_def using not_less_Least by blast
  have "k < n" using le k0(1) by simp
  from retry_success [OF this before pk assms] show "r = Inr ()" by simp
qed

lemma runInstall_ok_iff:
  assumes "runInstall cfg w = (r, w')"
  shows "(r = Inr ()) = (\<exists>k. 1 \<le> k \<and> k \<le> MAX_INSTALL_ATTEMPTS \<and>
            attempt_status w (npmInstallArgs cfg) k = 0)"
proof -
  obtain r1 w1 where e: "executeCommandWithRetry (npmToolFilename cfg) (npmInstallArgs cfg)
      MAX_INSTALL_ATTEMPTS (commonFolder cfg) w = (r1, w1)"
    by (cases "executeCommandWithRetry (npmToolFilename cfg) (npmInstallArgs cfg)
      MAX_INSTALL_ATTEMPTS (commonFolder cfg) w")
  have "(r = Inr ()) = (r1 = Inr ())"
    using assms e by (cases r1) (auto simp: runInstall_def andThen_def createFileSync_def)
  also have "\<dots> = (\<exists>k<MAX_INSTALL_ATTEMPTS.
      exit_status w (npmInstallArgs cfg) (invocations w (npmInstallArgs cfg) + k) = 0)"
    by (rule retry_ok_iff [OF e])
  also have "\<dots> = (\<exists>k. 1 \<le> k \<and> k \<le> MAX_INSTALL_ATTEMPTS \<and>
            attempt_status w (npmInstallArgs cfg) k = 0)"
  proof
    assume "\<exists>k<MAX_INSTALL_ATTEMPTS.
      exit_status w (npmInstallArgs cfg) (invocations w (npmInstallArgs cfg) + k) = 0"
    then obtain k where "k < MAX_INSTALL_ATTEMPTS"
      "exit_status w (npmInstallArgs cfg) (invocations w (npmInstallArgs cfg) + k) = 0" by blast
    then have "1 \<le> Suc k \<and> Suc k \<le> MAX_INSTALL_ATTEMPTS \<and>
            attempt_status w (npmInstallArgs cfg) (Suc k) = 0"
      by (simp add: attempt_status_def)
    then show "\<exists>k. 1 \<le> k \<and> k \<le> MAX_INSTALL_ATTEMPTS \<and>
            attempt_status w (npmInstallArgs cfg) k = 0" by blast
  next
    assume "\<exists>k. 1 \<le> k \<and> k \<le> MAX_INSTALL_ATTEMPTS \<and>
            attempt_status w (npmInstallArgs cfg) k = 0"
    then obtain k where "1 \<le> k" "k \<le> MAX_INSTALL_ATTEMPTS"
      "attempt_status w (npmInstallArgs cfg) k = 0" by blast
    then have "k - 1 < MAX_INSTALL_ATTEMPTS \<and>
      exit_status w (npmInstallArgs cfg) (invocations w (npmInstallArgs cfg) + (k - 1)) = 0"
      by (simp add: attempt_status_def del: One_nat_def)
    then show "\<exists>k<MAX_INSTALL_ATTEMPTS.
      exit_status w (npmInstallArgs cfg) (invocations w (npmInstallArgs cfg) + k) = 0" by blast
  qed
  finally show ?thesis .
qed

lemma exec_events_attempts:
  "exec_events c a d w j = map (\<lambda>i. (Exec c a d (attempt_status w a (Suc i)), files w)) [0..<j]"
  by (simp add: exec_events_def attempt_status_def)

lemma interrupted_run:
  assumes tool: "existsSync (npmToolFilename (rushConfiguration this)) w"
    and flags: "\<not> cleanInstall this" "\<not> cleanInstallFull this"
    and marker: "\<not> existsSync (commonNodeModulesMarkerFilename (rushConfiguration this)) w"
    and folder: "existsSync (commonNodeModulesFolder (rushConfiguration this)) w"
  shows "installCommonModules this w
     = runInstall (rushConfiguration this)
         (snd (recycleDirectory (rushConfiguration this)
                 (commonNodeModulesFolder (rushConfiguration this)) w))"
    and "startInstall (rushConfiguration this) False w
     = (Inr True, snd (recycleDirectory (rushConfiguration this)
                 (commonNodeModulesFolder (rushConfiguration this)) w))"
proof -
  let ?cfg = "rushConfiguration this"
  let ?w1 = "snd (recycleDirectory ?cfg (commonNodeModulesFolder ?cfg) w)"
  have nc: "\<not> isFileTimestampCurrent (commonNodeModulesMarkerFilename ?cfg)
      (packageJsonFilenames this) w"
    using marker by (simp add: isFileTimestampCurrent_def existsSync_def)
  show s: "startInstall ?cfg False w = (Inr True, ?w1)"
    using marker folder
    by (simp add: startInstall_def Let_def andThen_def whenM_def ret_def recycleDirectory_def)
  have "installCommonModules this w
      = andThen (startInstall ?cfg False) (\<lambda>skipPrune'.
          andThen (if \<not> skipPrune' then pruneTempProjects ?cfg else ret ()) (\<lambda>_.
          runInstall ?cfg)) w"
    using tool nc cleanOrCompare_compare [OF flags, of w]
    by (simp add: installCommonModules_def Let_def
        andThen_eq [of "cleanOrCompare this" w _ w])
  also have "\<dots> = runInstall ?cfg ?w1"
    using s by (simp add: andThen_def ret_def)
  finally show "installCommonModules this w = runInstall ?cfg ?w1" .
qed

text \<open>
  C2. In a run without \<^verbatim>\<open>--clean\<close> and \<^verbatim>\<open>--full-clean\<close> that finds no marker but an
  existing \<^verbatim>\<open>common/node_modules\<close>: \<^verbatim>\<open>skipPrune\<close> becomes true; the first event
  recycles the folder; it is followed by the attempts of \<^verbatim>\<open>npm install\<close> only, at least
  one and at most 5, in a file system without the folder, and by the creation of the
  marker when the run succeeds, so that nothing is pruned; and the run succeeds and
  leaves the marker exactly when one of the 5 attempts exits with 0.
\<close>

theorem crash_recovery:
  fixes this w
  defines "cfg \<equiv> rushConfiguration this"
  defines "marker \<equiv> commonNodeModulesMarkerFilename cfg"
  defines "folder \<equiv> commonNodeModulesFolder cfg"
  defines "a \<equiv> npmInstallArgs cfg"
  assumes tool: "existsSync (npmToolFilename cfg) w"
    and flags: "\<not> cleanInstall this" "\<not> cleanInstallFull this"
    and absent: "\<not> existsSync marker w"
    and present: "existsSync folder w"
    and run: "installCommonModules this w = (r, w')"
  shows "fst (startInstall cfg False w) = Inr True
     \<and> (\<exists>j rest. 0 < j \<and> j \<le> MAX_INSTALL_ATTEMPTS \<and>
           new_events w w'
             = (Recycle folder, files w)
               # map (\<lambda>i. (Exec (npmToolFilename cfg) a (commonFolder cfg) (attempt_status w a (Suc i)),
                            remove_tree folder (files w))) [0..<j]
               @ rest \<and>
           (rest = [] \<and> (\<exists>e. r = Inl e) \<or>
            rest = [(CreateFile marker, remove_tree folder (files w))] \<and> r = Inr () \<and>
              files w' marker = Some \<lparr>mtime = now w, content = []\<rparr>))
     \<and> (r = Inr ()) = (\<exists>k. 1 \<le> k \<and> k \<le> MAX_INSTALL_ATTEMPTS \<and> attempt_status w a k = 0)"
proof -
  let ?w1 = "snd (recycleDirectory cfg folder w)"
  note ir = interrupted_run [OF tool [unfolded cfg_def] flags absent [unfolded marker_def cfg_def]
      present [unfolded folder_def cfg_def], folded cfg_def, folded folder_def]
  have w1: "files ?w1 = remove_tree folder (files w)"
    "history ?w1 = history w @ [(Recycle folder, files w)]"
    "exit_status ?w1 = exit_status w" "invocations ?w1 = invocations w" "now ?w1 = now w"
    by (simp_all add: recycleDirectory_def record_event_def)
  have abs1: "files ?w1 marker = None"
    using absent w1(1) by (simp add: existsSync_def remove_tree_None)
  have as: "attempt_status ?w1 a = attempt_status w a"
    using w1(3,4) by (simp add: attempt_status_def fun_eq_iff)
  have ri: "runInstall cfg ?w1 = (r, w')" using ir(1) run by simp
  have 1: "fst (startInstall cfg False w) = Inr True" using ir(2) by simp
  have 3: "(r = Inr ()) = (\<exists>k. 1 \<le> k \<and> k \<le> MAX_INSTALL_ATTEMPTS \<and> attempt_status w a k = 0)"
    using runInstall_ok_iff [OF ri] as by (simp add: a_def)
  from runInstall_result [OF ri abs1 [unfolded marker_def], folded marker_def a_def,
      THEN conjunct2]
  obtain j where j: "j \<le> MAX_INSTALL_ATTEMPTS" "0 < j"
    and res: "r = Inr () \<and>
         exit_status ?w1 a (invocations ?w1 a + (j - 1)) = 0 \<and>
         history w' = history ?w1
            @ exec_events (npmToolFilename cfg) a (commonFolder cfg) ?w1 j
            @ [(CreateFile marker, files ?w1)] \<and>
         files w' = (files ?w1)(marker \<mapsto> \<lparr>mtime = now ?w1, content = []\<rparr>)
         \<or>
         (\<exists>i. r = Inl (CommandFailed a (exit_status ?w1 a i)) \<and>
              exit_status ?w1 a i \<noteq> 0) \<and>
         history w' = history ?w1
            @ exec_events (npmToolFilename cfg) a (commonFolder cfg) ?w1 j \<and>
         files w' = files ?w1"
    by (elim exE conjE)
  let ?execs = "map (\<lambda>i. (Exec (npmToolFilename cfg) a (commonFolder cfg) (attempt_status w a (Suc i)),
                            remove_tree folder (files w))) [0..<j]"
  have ee: "exec_events (npmToolFilename cfg) a (commonFolder cfg) ?w1 j = ?execs"
    using as w1(1) by (simp add: exec_events_attempts)
  from res have 2: "\<exists>rest. new_events w w' = (Recycle folder, files w) # ?execs @ rest \<and>
           (rest = [] \<and> (\<exists>e. r = Inl e) \<or>
            rest = [(CreateFile marker, remove_tree folder (files w))] \<and> r = Inr () \<and>
              files w' marker = Some \<lparr>mtime = now w, content = []\<rparr>)"
  proof (elim disjE conjE exE)
    assume ok: "r = Inr ()"
      and h: "history w' = history ?w1
            @ exec_events (npmToolFilename cfg) a (commonFolder cfg) ?w1 j
            @ [(CreateFile marker, files ?w1)]"
      and f: "files w' = (files ?w1)(marker \<mapsto> \<lparr>mtime = now ?w1, content = []\<rparr>)"
    have "new_events w w' = (Recycle folder, files w) # ?execs
        @ [(CreateFile marker, remove_tree folder (files w))]"
      using h ee w1(1,2) by (simp add: new_events_def)
    moreover have "files w' marker = Some \<lparr>mtime = now w, content = []\<rparr>"
      using f w1(5) by simp
    ultimately show ?thesis using ok by simp
  next
    fix i
    assume fl: "r = Inl (CommandFailed a (exit_status ?w1 a i))"
      and h: "history w' = history ?w1
            @ exec_events (npmToolFilename cfg) a (commonFolder cfg) ?w1 j"
    have "new_events w w' = (Recycle folder, files w) # ?execs @ []"
      using h ee w1(2) by (simp add: new_events_def)
    then show ?thesis using fl by blast
  qed
  have "\<exists>j rest. 0 < j \<and> j \<le> MAX_INSTALL_ATTEMPTS \<and>
           new_events w w'
             = (Recycle folder, files w)
               # map (\<lambda>i. (Exec (npmToolFilename cfg) a (commonFolder cfg) (attempt_status w a (Suc i)),
                            remove_tree folder (files w))) [0..<j]
               @ rest \<and>
           (rest = [] \<and> (\<exists>e. r = Inl e) \<or>
            rest = [(CreateFile marker, remove_tree folder (files w))] \<and> r = Inr () \<and>
              files w' marker = Some \<lparr>mtime = now w, content = []\<rparr>)"
    using 2 j by (intro exI [of _ j]) simp
  then show ?thesis using 1 3 by simp
qed

theorem crash_recovery_witness:
  "existsSync tool_ex (world_ex interrupted_files (flaky_install 1))
   \<and> \<not> existsSync marker_ex (world_ex interrupted_files (flaky_install 1))
   \<and> existsSync ''/repo/common/node_modules'' (world_ex interrupted_files (flaky_install 1))
   \<and> fst (startInstall config_ex False (world_ex interrupted_files (flaky_install 1))) = Inr True
   \<and> attempt_status (world_ex interrupted_files (flaky_install 1)) [''install''] 2 = 0
   \<and> fst (installCommonModules (install_ex False) (world_ex interrupted_files (flaky_install 1)))
        = Inr ()
   \<and> map fst (new_events (world_ex interrupted_files (flaky_install 1))
        (snd (installCommonModules (install_ex False) (world_ex interrupted_files (flaky_install 1)))))
      = [Recycle ''/repo/common/node_modules'',
         Exec tool_ex [''install''] ''/repo/common'' 1,
         Exec tool_ex [''install''] ''/repo/common'' 0,
         CreateFile marker_ex]"
proof -
  let ?w = "world_ex interrupted_files (flaky_install 1)"
  let ?run = "installCommonModules (install_ex False) ?w"
  have m: "rushConfiguration (install_ex False) = config_ex"
    "commonNodeModulesMarkerFilename config_ex = marker_ex"
    "commonNodeModulesFolder config_ex = ''/repo/common/node_modules''"
    "npmInstallArgs config_ex = [''install'']"
    "npmToolFilename config_ex = tool_ex"
    by (simp add: install_ex_def, code_simp+)
  have pre: "existsSync tool_ex ?w" "\<not> cleanInstall (install_ex False)"
    "\<not> cleanInstallFull (install_ex False)" "\<not> existsSync marker_ex ?w"
    "existsSync ''/repo/common/node_modules'' ?w"
    by code_simp+
  have st: "attempt_status ?w [''install''] 2 = 0" by code_simp
  have ev: "map fst (new_events ?w (snd ?run))
      = [Recycle ''/repo/common/node_modules'',
         Exec tool_ex [''install''] ''/repo/common'' 1,
         Exec tool_ex [''install''] ''/repo/common'' 0,
         CreateFile marker_ex]"
    by code_simp
  have run: "?run = (fst ?run, snd ?run)" by simp
  note c = crash_recovery [of "install_ex False" ?w, unfolded m, OF pre run]
  have "1 \<le> (2::nat) \<and> 2 \<le> MAX_INSTALL_ATTEMPTS \<and> attempt_status ?w [''install''] 2 = 0"
    using st by (simp add: MAX_INSTALL_ATTEMPTS_def)
  then have "\<exists>k. 1 \<le> k \<and> k \<le> MAX_INSTALL_ATTEMPTS \<and> attempt_status ?w [''install''] k = 0"
    by blast
  then have "fst ?run = Inr ()" "fst (startInstall config_ex False ?w) = Inr True"
    using c by simp_all
  then show ?thesis using pre st ev by simp
qed

lemma current_iff:
  assumes "files w (commonNodeModulesMarkerFilename (rushConfiguration this)) = Some m"
  shows "isFileTimestampCurrent (commonNodeModulesMarkerFilename (rushConfiguration this)) fs w
     = (\<not> list_ex (\<lambda>f. files w f = None \<or> newer_than_marker this w f) fs)"
  using assms
  by (auto simp: isFileTimestampCurrent_def newer_than_marker_def list_all_iff list_ex_iff
      split: option.splits)

text \<open>
  C8, as the code has it. Without \<^verbatim>\<open>--clean\<close> and \<^verbatim>\<open>--full-clean\<close> and with the marker
  present, an install is needed exactly when one of \<^verbatim>\<open>common/package.json\<close>,
  \<^verbatim>\<open>common/node_modules\<close> and the temp module files does not exist or is newer than
  the marker; when none is, the run returns at once: no installer is run and the world,
  the marker included, is as before.
\<close>

theorem freshness_check:
  fixes this w
  defines "cfg \<equiv> rushConfiguration this"
  defines "marker \<equiv> commonNodeModulesMarkerFilename cfg"
  defines "stale \<equiv> list_ex (\<lambda>f. files w f = None \<or> newer_than_marker this w f)
      ([path_join (commonFolder cfg) ''package.json'', path_join (commonFolder cfg) ''node_modules'']
       @ tempModulesFiles this)"
  assumes flags: "\<not> cleanInstall this" "\<not> cleanInstallFull this"
    and present: "existsSync marker w"
  shows "cleanOrCompare this w = (Inr (stale, False), w)
     \<and> needs_install this w = stale
     \<and> (existsSync (npmToolFilename cfg) w \<and> \<not> stale \<longrightarrow> installCommonModules this w = (Inr (), w))"
proof -
  from present obtain m where m: "files w (commonNodeModulesMarkerFilename (rushConfiguration this)) = Some m"
    by (auto simp: existsSync_def marker_def cfg_def)
  have st: "isFileTimestampCurrent (commonNodeModulesMarkerFilename (rushConfiguration this))
      (packageJsonFilenames this) w = (\<not> stale)"
    unfolding current_iff [OF m] stale_def
    by (simp add: packageJsonFilenames_def commonNodeModulesFolder_def cfg_def)
  have 1: "cleanOrCompare this w = (Inr (stale, False), w)"
    using cleanOrCompare_compare [OF flags, of w] st by simp
  have 2: "needs_install this w = stale"
    using flags st by (simp add: needs_install_def)
  have 3: "existsSync (npmToolFilename cfg) w \<and> \<not> stale \<longrightarrow> installCommonModules this w = (Inr (), w)"
    using 1 by (simp add: installCommonModules_def Let_def cfg_def ret_def
        andThen_eq [of "cleanOrCompare this" w "Inr (stale, False)" w])
  show ?thesis using 1 2 3 by simp
qed

theorem freshness_check_witness:
  "existsSync marker_ex (world_ex current_files (flaky 0))
   \<and> existsSync tool_ex (world_ex current_files (flaky 0))
   \<and> \<not> needs_install (install_ex False) (world_ex current_files (flaky 0))
   \<and> installCommonModules (install_ex False) (world_ex current_files (flaky 0))
        = (Inr (), world_ex current_files (flaky 0))
   \<and> existsSync marker_ex (world_ex outdated_files (flaky 0))
   \<and> newer_than_marker (install_ex False) (world_ex outdated_files (flaky 0))
        ''/repo/common/package.json''
   \<and> cleanOrCompare (install_ex False) (world_ex outdated_files (flaky 0))
        = (Inr (True, False), world_ex outdated_files (flaky 0))"
proof -
  let ?c = "world_ex current_files (flaky 0)" and ?o = "world_ex outdated_files (flaky 0)"
  have m: "rushConfiguration (install_ex False) = config_ex"
    "commonNodeModulesMarkerFilename config_ex = marker_ex"
    "npmToolFilename config_ex = tool_ex"
    by (simp add: install_ex_def, code_simp+)
  have flags: "\<not> cleanInstall (install_ex False)" "\<not> cleanInstallFull (install_ex False)"
    by code_simp+
  have pc: "existsSync marker_ex ?c" "existsSync tool_ex ?c" by code_simp+
  have po: "existsSync marker_ex ?o"
    "newer_than_marker (install_ex False) ?o ''/repo/common/package.json''"
    by code_simp+
  have sc: "\<not> list_ex (\<lambda>f. files ?c f = None \<or> newer_than_marker (install_ex False) ?c f)
      ([path_join (commonFolder config_ex) ''package.json'',
        path_join (commonFolder config_ex) ''node_modules'']
       @ tempModulesFiles (install_ex False))"
    by code_simp
  have so: "list_ex (\<lambda>f. files ?o f = None \<or> newer_than_marker (install_ex False) ?o f)
      ([path_join (commonFolder config_ex) ''package.json'',
        path_join (commonFolder config_ex) ''node_modules'']
       @ tempModulesFiles (install_ex False))"
    by code_simp
  note fc = freshness_check [of "install_ex False" ?c, unfolded m, OF flags pc(1)]
  note fo = freshness_check [of "install_ex False" ?o, unfolded m, OF flags po(1)]
  have "\<not> needs_install (install_ex False) ?c"
    "installCommonModules (install_ex False) ?c = (Inr (), ?c)"
    using fc sc pc(2) by simp_all
  moreover have "cleanOrCompare (install_ex False) ?o = (Inr (True, False), ?o)"
    using fo so by simp
  ultimately show ?thesis using pc po by simp
qed

text \<open>
  C8 as it is stated fails when a compared file is missing: the marker is the newest
  file, \<^verbatim>\<open>common/node_modules\<close> was deleted, so that no compared file is newer than the
  marker, and yet \<^verbatim>\<open>needToInstall\<close> is true and the installer runs.
\<close>

theorem freshness_check_counterexample:
  "\<not> cleanInstall (install_ex False) \<and> \<not> cleanInstallFull (install_ex False)
   \<and> existsSync marker_ex (world_ex deleted_folder_files (flaky 0))
   \<and> \<not> list_ex (newer_than_marker (install_ex False) (world_ex deleted_folder_files (flaky 0)))
          (packageJsonFilenames (install_ex False))
   \<and> fst (cleanOrCompare (install_ex False) (world_ex deleted_folder_files (flaky 0)))
        = Inr (True, False)
   \<and> map fst (new_events (world_ex deleted_folder_files (flaky 0))
        (snd (installCommonModules (install_ex False) (world_ex deleted_folder_files (flaky 0)))))
      = [Unlink marker_ex, Exec tool_ex [''prune''] ''/repo/common'' 0,
         Exec tool_ex [''install''] ''/repo/common'' 0, CreateFile marker_ex]"
  by code_simp










section \<open>The check of the temp modules\<close>

lemma equalArrays_iff: "length xs = length ys \<Longrightarrow> equalArrays xs ys = list_all2 isEqual xs ys"
  by (induction xs ys rule: list_induct2) simp_all

lemma equalObjects_iff:
  "equalObjects ps qs = (\<forall>(k, v) \<in> set ps. \<exists>u. map_of qs k = Some u \<and> isEqual v u)"
  by (induction ps) (auto split: option.splits)

lemma key_reordering_isEqual:
  "key_reordering e a \<Longrightarrow> wf_json e \<Longrightarrow> isEqual e a"
proof (induction rule: key_reordering.induct)
  case (kr_arr xs ys)
  have len: "length xs = length ys" using kr_arr.IH by (rule list_all2_lengthD)
  have "\<forall>i<length xs. isEqual (xs ! i) (ys ! i)"
  proof (intro allI impI)
    fix i assume i: "i < length xs"
    have "wf_json (xs ! i)" using kr_arr.prems i by simp
    then show "isEqual (xs ! i) (ys ! i)" using list_all2_nthD [OF kr_arr.IH i] by simp
  qed
  then have "list_all2 isEqual xs ys" using len by (simp add: list_all2_conv_all_nth)
  then show ?case using len by (simp add: equalArrays_iff)
next
  case (kr_obj ps ps' qs)
  note rel = kr_obj.IH
  have l1: "length ps = length ps'" using rel by (rule list_all2_lengthD)
  have l2: "length ps' = length qs" using kr_obj.hyps by (rule mset_eq_length)
  have len: "length ps = length qs" using l1 l2 by simp
  have "\<forall>i<length ps. fst (ps ! i) = fst (ps' ! i)"
    using list_all2_nthD [OF rel] by simp
  then have keys: "map fst ps = map fst ps'"
    using l1 by (intro nth_equalityI) simp_all
  have "mset (map fst qs) = mset (map fst ps)" using kr_obj.hyps keys by simp
  then have "distinct (map fst qs) = distinct (map fst ps)" by (rule mset_eq_imp_distinct_iff)
  then have dq: "distinct (map fst qs)" using kr_obj.prems by simp
  have sets: "set ps' = set qs" using kr_obj.hyps by (rule mset_eq_setD)
  have "\<forall>(k, v) \<in> set ps. \<exists>u. map_of qs k = Some u \<and> isEqual v u"
  proof (intro ballI, clarify)
    fix k v assume kv: "(k, v) \<in> set ps"
    then obtain i where i: "i < length ps" "ps ! i = (k, v)" by (auto simp: in_set_conv_nth)
    have il: "i < length ps'" using i(1) l1 by simp
    have "\<forall>x\<in>set ps. wf_json (snd x)" using kr_obj.prems by simp
    then have "wf_json (snd (k, v))" using kv by (rule bspec)
    then have wv: "wf_json v" by simp
    from list_all2_nthD [OF rel i(1)] i(2) wv
    have p: "fst (ps' ! i) = k" "isEqual v (snd (ps' ! i))"
      by simp_all
    have "ps' ! i \<in> set ps'" using il by simp
    then have "ps' ! i \<in> set qs" using sets by simp
    moreover have "ps' ! i = (k, snd (ps' ! i))" using p(1) by (simp add: prod_eq_iff)
    ultimately have "(k, snd (ps' ! i)) \<in> set qs" by simp
    then have "map_of qs k = Some (snd (ps' ! i))" using dq by (rule map_of_is_SomeI [rotated])
    then show "\<exists>u. map_of qs k = Some u \<and> isEqual v u" using p(2) by simp
  qed
  then have "equalObjects ps qs" by (simp only: equalObjects_iff)
  then show ?case using len by simp
next
  case kr_null show ?case by simp
next
  case kr_bool show ?case by simp
next
  case kr_num show ?case by simp
next
  case kr_str show ?case by simp
qed

lemma key_reordering_refl: "key_reordering j j"
proof (induction j)
  case (JArr xs)
  have "list_all2 key_reordering xs xs"
    by (rule list.rel_refl_strong) (rule JArr)
  then show ?case by (rule kr_arr)
next
  case (JObj ps)
  have "list_all2 (\<lambda>p q. fst p = fst q \<and> key_reordering (snd p) (snd q)) ps ps"
  proof (rule list.rel_refl_strong)
    fix p assume "p \<in> set ps"
    then have "key_reordering (snd p) (snd p)"
    proof (rule JObj)
      show "snd p \<in> Basic_BNFs.snds p" by (cases p) simp
    qed
    then show "fst p = fst p \<and> key_reordering (snd p) (snd p)" by simp
  qed
  then show ?case by (rule kr_obj) simp
qed (rule key_reordering.intros)+

lemma isEqual_key_reordering:
  "wf_json e \<Longrightarrow> isEqual e a \<Longrightarrow> key_reordering e a"
proof (induction e arbitrary: a)
  case JNull
  then show ?case by (cases a) (simp_all add: key_reordering.intros)
next
  case (JBool b)
  then show ?case by (cases a) (simp_all add: key_reordering.intros)
next
  case (JNum n)
  then show ?case by (cases a) (simp_all add: key_reordering.intros)
next
  case (JStr s)
  then show ?case by (cases a) (simp_all add: key_reordering.intros)
next
  case (JArr xs)
  from JArr.prems(2) obtain ys where a: "a = JArr ys" by (cases a) simp_all
  have len: "length xs = length ys" and eq: "equalArrays xs ys"
    using JArr.prems(2) unfolding a by simp_all
  have rel: "list_all2 isEqual xs ys" using eq len by (simp add: equalArrays_iff)
  have "list_all2 key_reordering xs ys"
  proof (rule list.rel_mono_strong [OF rel])
    fix x y assume x: "x \<in> set xs" and e: "isEqual x y"
    have "wf_json x" using JArr.prems(1) x by simp
    with x show "key_reordering x y" using e by (rule JArr.IH)
  qed
  then show ?case unfolding a by (rule kr_arr)
next
  case (JObj ps)
  from JObj.prems(2) obtain qs where a: "a = JObj qs" by (cases a) simp_all
  have len: "length ps = length qs" and eq: "equalObjects ps qs"
    using JObj.prems(2) unfolding a by simp_all
  have look: "\<And>k v. (k, v) \<in> set ps \<Longrightarrow> \<exists>u. map_of qs k = Some u \<and> isEqual v u"
    using eq by (auto simp: equalObjects_iff)
  have dist: "distinct (map fst ps)" using JObj.prems(1) by simp
  have wfv: "\<And>k v. (k, v) \<in> set ps \<Longrightarrow> wf_json v" using JObj.prems(1) by force
  define ps' where "ps' = map (\<lambda>p. (fst p, the (map_of qs (fst p)))) ps"
  have keys: "map fst ps' = map fst ps" by (simp add: ps'_def comp_def)
  have l': "length ps' = length ps" by (simp add: ps'_def)
  have rel: "list_all2 (\<lambda>p q. fst p = fst q \<and> key_reordering (snd p) (snd q)) ps ps'"
    unfolding ps'_def list_all2_map2
  proof (rule list.rel_refl_strong)
    fix p assume p: "p \<in> set ps"
    then have kv: "(fst p, snd p) \<in> set ps" by simp
    from look [OF kv] obtain u where u: "map_of qs (fst p) = Some u" "isEqual (snd p) u" by auto
    have "key_reordering (snd p) u"
    proof (rule JObj.IH [OF p])
      show "snd p \<in> Basic_BNFs.snds p" by (cases p) simp
      show "wf_json (snd p)" using wfv [OF kv] .
      show "isEqual (snd p) u" using u(2) .
    qed
    then show "fst p = fst (fst p, the (map_of qs (fst p))) \<and>
        key_reordering (snd p) (snd (fst p, the (map_of qs (fst p))))"
      using u(1) by simp
  qed
  have dps': "distinct ps'" using dist keys by (metis distinct_map)
  have sub: "set ps' \<subseteq> set qs"
  proof
    fix q assume "q \<in> set ps'"
    then obtain p where p: "p \<in> set ps" "q = (fst p, the (map_of qs (fst p)))"
      by (auto simp: ps'_def)
    then have kv: "(fst p, snd p) \<in> set ps" by simp
    from look [OF kv] obtain u where u: "map_of qs (fst p) = Some u" by auto
    then have "(fst p, u) \<in> set qs" by (rule map_of_SomeD)
    then show "q \<in> set qs" using p(2) u by simp
  qed
  have c1: "card (set ps') = length qs" using dps' l' len by (simp add: distinct_card)
  have c2: "card (set qs) \<le> length qs" by (rule card_length)
  have c3: "card (set ps') \<le> card (set qs)" using sub by (intro card_mono) simp_all
  have ceq: "card (set qs) = length qs" using c1 c2 c3 by simp
  have dqs: "distinct qs" using ceq by (rule card_distinct)
  have "set ps' = set qs" using sub c1 ceq by (intro card_subset_eq) simp_all
  then have "mset ps' = mset qs" using dps' dqs by (simp add: set_eq_iff_mset_eq_distinct)
  with rel show ?case unfolding a by (rule kr_obj)
qed

lemma isEqual_iff_key_reordering:
  "wf_json e \<Longrightarrow> isEqual e a = key_reordering e a"
  using isEqual_key_reordering [of e a] key_reordering_isEqual [of e a] by blast

lemma map_of_assign: "map_of (assign kvs k v) = (map_of kvs)(k \<mapsto> v)"
  by (induction kvs) (auto simp: fun_eq_iff)

lemma keys_assign: "fst ` set (assign kvs k v) = insert k (fst ` set kvs)"
proof -
  have "fst ` set (assign kvs k v) = dom (map_of (assign kvs k v))"
    by (simp add: dom_map_of_conv_image_fst)
  also have "\<dots> = insert k (dom (map_of kvs))" by (simp add: map_of_assign)
  also have "\<dots> = insert k (fst ` set kvs)" by (simp add: dom_map_of_conv_image_fst)
  finally show ?thesis .
qed

lemma distinct_assign: "distinct (map fst kvs) \<Longrightarrow> distinct (map fst (assign kvs k v))"
  by (induction kvs) (auto simp: keys_assign)

lemma find_append_cases:
  "find P (xs @ ys) = (case find P xs of None \<Rightarrow> find P ys | Some x \<Rightarrow> Some x)"
  by (induction xs) simp_all

lemma find_SomeD: "find P xs = Some x \<Longrightarrow> x \<in> set xs \<and> P x"
  by (induction xs) (auto split: if_splits)

lemma find_None_all: "find P xs = None \<Longrightarrow> \<forall>x \<in> set xs. \<not> P x"
  by (simp add: find_None_iff)

lemma find_first:
  "(find P xs = Some x) = (\<exists>before after. xs = before @ x # after \<and> P x \<and> (\<forall>y \<in> set before. \<not> P y))"
proof (induction xs)
  case Nil
  show ?case by simp
next
  case (Cons a xs)
  show ?case
  proof (cases "P a")
    case True
    have "(\<exists>before after. a # xs = before @ x # after \<and> P x \<and> (\<forall>y \<in> set before. \<not> P y))
        = (a = x)"
    proof
      assume "\<exists>before after. a # xs = before @ x # after \<and> P x \<and> (\<forall>y \<in> set before. \<not> P y)"
      then obtain before after where
        s: "a # xs = before @ x # after" "\<forall>y \<in> set before. \<not> P y" by auto
      show "a = x"
      proof (cases before)
        case Nil
        then show ?thesis using s(1) by simp
      next
        case (Cons b bs)
        then have "a = b" "b \<in> set before" using s(1) by simp_all
        then show ?thesis using s(2) True by auto
      qed
    next
      assume "a = x"
      then have "a # xs = [] @ x # xs \<and> P x \<and> (\<forall>y \<in> set []. \<not> P y)" using True by simp
      then show "\<exists>before after. a # xs = before @ x # after \<and> P x \<and> (\<forall>y \<in> set before. \<not> P y)"
        by blast
    qed
    then show ?thesis using True by simp
  next
    case False
    have "(\<exists>before after. a # xs = before @ x # after \<and> P x \<and> (\<forall>y \<in> set before. \<not> P y))
        = (\<exists>before after. xs = before @ x # after \<and> P x \<and> (\<forall>y \<in> set before. \<not> P y))"
    proof
      assume "\<exists>before after. a # xs = before @ x # after \<and> P x \<and> (\<forall>y \<in> set before. \<not> P y)"
      then obtain before after where
        s: "a # xs = before @ x # after" "P x" "\<forall>y \<in> set before. \<not> P y" by auto
      show "\<exists>before after. xs = before @ x # after \<and> P x \<and> (\<forall>y \<in> set before. \<not> P y)"
      proof (cases before)
        case Nil
        then show ?thesis using s(1,2) False by simp
      next
        case (Cons b bs)
        then have "xs = bs @ x # after \<and> P x \<and> (\<forall>y \<in> set bs. \<not> P y)" using s by simp
        then show ?thesis by blast
      qed
    next
      assume "\<exists>before after. xs = before @ x # after \<and> P x \<and> (\<forall>y \<in> set before. \<not> P y)"
      then obtain before after where
        s: "xs = before @ x # after" "P x" "\<forall>y \<in> set before. \<not> P y" by auto
      then have "a # xs = (a # before) @ x # after \<and> P x \<and> (\<forall>y \<in> set (a # before). \<not> P y)"
        using False by simp
      then show "\<exists>before after. a # xs = before @ x # after \<and> P x \<and> (\<forall>y \<in> set before. \<not> P y)"
        by blast
    qed
    then show ?thesis using False Cons.IH by simp
  qed
qed

lemma readTempModules_result:
  assumes "\<forall>f \<in> set fs. name_of (req f) \<noteq> None"
  shows "\<exists>d. readTempModules req fs acc = Inr d \<and>
    (\<forall>n. map_of (own d) n =
       (if n = ''__proto__'' then map_of (own acc) n
        else case find (\<lambda>f. name_of (req f) = Some n) (rev fs) of
               Some f \<Rightarrow> Some (info req f)
             | None \<Rightarrow> map_of (own acc) n)) \<and>
    prototype d = (case find (\<lambda>f. name_of (req f) = Some ''__proto__'') (rev fs) of
                     Some f \<Rightarrow> Some (info req f)
                   | None \<Rightarrow> prototype acc) \<and>
    (distinct (map fst (own acc)) \<longrightarrow> distinct (map fst (own d)))"
  using assms
proof (induction fs arbitrary: acc)
  case Nil
  then show ?case by simp
next
  case (Cons f fs)
  then obtain n0 where n0: "name_of (req f) = Some n0" by auto
  let ?acc = "setProperty acc n0 (info req f)"
  have rest: "\<forall>f \<in> set fs. name_of (req f) \<noteq> None" using Cons.prems by simp
  from Cons.IH [of ?acc, OF rest] obtain d where
    d: "readTempModules req fs ?acc = Inr d"
    "\<forall>n. map_of (own d) n =
       (if n = ''__proto__'' then map_of (own ?acc) n
        else case find (\<lambda>f. name_of (req f) = Some n) (rev fs) of
               Some f \<Rightarrow> Some (info req f)
             | None \<Rightarrow> map_of (own ?acc) n)"
    "prototype d = (case find (\<lambda>f. name_of (req f) = Some ''__proto__'') (rev fs) of
                     Some f \<Rightarrow> Some (info req f)
                   | None \<Rightarrow> prototype ?acc)"
    "distinct (map fst (own ?acc)) \<longrightarrow> distinct (map fst (own d))"
    by (elim exE conjE)
  have own_acc: "own ?acc = (if n0 = ''__proto__'' then own acc else assign (own acc) n0 (info req f))"
    and proto_acc: "prototype ?acc = (if n0 = ''__proto__'' then Some (info req f) else prototype acc)"
    by (simp_all add: setProperty_def)
  have 1: "readTempModules req (f # fs) acc = Inr d"
    using d(1) n0 by (simp add: info_def)
  have 2: "\<forall>n. map_of (own d) n =
       (if n = ''__proto__'' then map_of (own acc) n
        else case find (\<lambda>f. name_of (req f) = Some n) (rev (f # fs)) of
               Some f \<Rightarrow> Some (info req f)
             | None \<Rightarrow> map_of (own acc) n)"
    using d(2) n0 unfolding own_acc
    by (auto simp: find_append_cases map_of_assign split: option.splits)
  have 3: "prototype d = (case find (\<lambda>f. name_of (req f) = Some ''__proto__'') (rev (f # fs)) of
                     Some f \<Rightarrow> Some (info req f)
                   | None \<Rightarrow> prototype acc)"
    using d(3) n0 unfolding proto_acc
    by (auto simp: find_append_cases split: option.splits)
  have 4: "distinct (map fst (own acc)) \<longrightarrow> distinct (map fst (own d))"
    using d(4) unfolding own_acc by (simp add: distinct_assign)
  show ?case
    apply (rule exI [of _ d])
    apply (intro conjI)
       apply (rule 1)
      apply (rule 2)
     apply (rule 3)
    apply (rule 4)
    done
qed

text \<open>The object that the check fills from well-typed files.\<close>

lemma dictionary:
  assumes "well_typed this w"
  shows "\<exists>d. readTempModules (require w) (tempModulesFiles this) emptyObject = Inr d \<and>
    (\<forall>n. map_of (own d) n =
       (if n = ''__proto__'' then None else map_option (info (require w)) (persisted this w n))) \<and>
    prototype d = map_option (info (require w)) (persisted this w ''__proto__'') \<and>
    distinct (map fst (own d))"
proof -
  have "\<forall>f \<in> set (tempModulesFiles this). name_of (require w f) \<noteq> None"
    using assms by (simp add: well_typed_def list_all_iff)
  from readTempModules_result [OF this, of emptyObject] obtain d where
    d: "readTempModules (require w) (tempModulesFiles this) emptyObject = Inr d"
    "\<forall>n. map_of (own d) n =
       (if n = ''__proto__'' then map_of (own emptyObject) n
        else case find (\<lambda>f. name_of (require w f) = Some n) (rev (tempModulesFiles this)) of
               Some f \<Rightarrow> Some (info (require w) f)
             | None \<Rightarrow> map_of (own emptyObject) n)"
    "prototype d = (case find (\<lambda>f. name_of (require w f) = Some ''__proto__'')
                          (rev (tempModulesFiles this)) of
                     Some f \<Rightarrow> Some (info (require w) f)
                   | None \<Rightarrow> prototype emptyObject)"
    "distinct (map fst (own emptyObject)) \<longrightarrow> distinct (map fst (own d))"
    by (elim exE conjE)
  have 2: "\<forall>n. map_of (own d) n =
       (if n = ''__proto__'' then None else map_option (info (require w)) (persisted this w n))"
    using d(2)
    by (simp add: persisted_def module_named_def [abs_def] emptyObject_def split: option.splits)
  have 3: "prototype d = map_option (info (require w)) (persisted this w ''__proto__'')"
    using d(3)
    by (simp add: persisted_def module_named_def [abs_def] emptyObject_def split: option.splits)
  have 4: "distinct (map fst (own d))" using d(4) by (simp add: emptyObject_def)
  show ?thesis
    apply (rule exI [of _ d])
    apply (intro conjI)
       apply (rule d(1))
      apply (rule 2)
     apply (rule 3)
    apply (rule 4)
    done
qed

lemma persisted_Some:
  "persisted this w n = Some f \<Longrightarrow> f \<in> set (tempModulesFiles this) \<and> name_of (require w f) = Some n"
  using find_SomeD [of "module_named w n" "rev (tempModulesFiles this)" f]
  by (simp add: persisted_def module_named_def)

lemma persisted_None:
  "(persisted this w n = None) = (\<forall>f \<in> set (tempModulesFiles this). name_of (require w f) \<noteq> Some n)"
  by (auto simp: persisted_def module_named_def find_None_iff)

lemma set_Object_keys: "set (Object_keys d) = fst ` set (own d)"
  by (auto simp: Object_keys_def Let_def)

lemma findOrphan_Some:
  assumes "findOrphan ps d = Some tm"
  shows "\<exists>n. map_of (own d) n = Some tm \<and> \<not> foundMatchingProject ps n"
proof (cases "find (\<lambda>n. \<not> foundMatchingProject ps n) (Object_keys d)")
  case None
  then show ?thesis using assms by (simp add: findOrphan_def)
next
  case (Some n)
  then have "map_of (own d) n = Some tm" using assms by (simp add: findOrphan_def)
  moreover have "\<not> foundMatchingProject ps n" using find_SomeD [OF Some] by simp
  ultimately show ?thesis by (intro exI [of _ n]) simp
qed

lemma findOrphan_None:
  "(findOrphan ps d = None) = (\<forall>n \<in> fst ` set (own d). foundMatchingProject ps n)"
proof (cases "find (\<lambda>n. \<not> foundMatchingProject ps n) (Object_keys d)")
  case None
  have "findOrphan ps d = None" using None by (simp add: findOrphan_def)
  moreover have "\<forall>n \<in> fst ` set (own d). foundMatchingProject ps n"
    using find_None_all [OF None] unfolding set_Object_keys by simp
  ultimately show ?thesis by simp
next
  case (Some n)
  from find_SomeD [OF Some] have n: "n \<in> fst ` set (own d)" "\<not> foundMatchingProject ps n"
    by (simp_all add: set_Object_keys)
  then have "map_of (own d) n \<noteq> None" by (simp add: map_of_eq_None_iff)
  then have "findOrphan ps d \<noteq> None" using Some by (simp add: findOrphan_def)
  then show ?thesis using n by blast
qed

lemma checkProjects_result:
  assumes "\<forall>p \<in> set ps. getProperty d (tempProjectName p) =
      (case persisted this w (tempProjectName p) of
         Some f \<Rightarrow> VInfo (info (require w) f)
       | None \<Rightarrow> VUndefined)"
  shows "checkProjects d expected ps w0 =
     (case find (\<lambda>p. \<not> passes this w expected p) ps of
        None \<Rightarrow> (Inr (), w0)
      | Some p \<Rightarrow>
          (case persisted this w (tempProjectName p) of
             None \<Rightarrow> (Inl (MissingTempModule (packageName p)), w0)
           | Some f \<Rightarrow>
               (Inl (Outdated (packageName p)),
                w0\<lparr>console := console w0 @ outdated_report expected p (require w f)\<rparr>)))"
  using assms
  by (induction ps)
    (simp_all add: ret_def passes_def matches_def isEqualOrUndefined_def outdated_report_def
      info_def Let_def split: option.splits)

lemma checkProjects_frame:
  "files (snd (checkProjects d expected ps w)) = files w \<and>
   history (snd (checkProjects d expected ps w)) = history w"
  by (induction ps) (simp_all add: ret_def Let_def)

lemma check_frame:
  assumes "checkThatTempModulesMatch generator this w = (r, w')"
  shows "files w' = files w \<and> history w' = history w"
proof -
  have "files (snd (checkThatTempModulesMatch generator this w)) = files w \<and>
      history (snd (checkThatTempModulesMatch generator this w)) = history w"
    by (simp add: checkThatTempModulesMatch_def checkProjects_frame
        split: sum.splits option.splits)
  then show ?thesis using assms by simp
qed

lemma orphaned_persisted:
  assumes "f \<in> set (tempModulesFiles this)" "orphaned this w f"
    "name_of (require w f) \<noteq> Some ''__proto__''"
  shows "\<exists>n g. n \<noteq> ''__proto__'' \<and> persisted this w n = Some g \<and>
           \<not> foundMatchingProject (projects (rushConfiguration this)) n"
proof -
  from assms(2) obtain n where n: "name_of (require w f) = Some n"
    "\<not> foundMatchingProject (projects (rushConfiguration this)) n"
    by (auto simp: orphaned_def split: option.splits)
  have "persisted this w n \<noteq> None" using assms(1) n(1) by (auto simp: persisted_None)
  then show ?thesis using n assms(3) by auto
qed

text \<open>
  The check on well-typed files, in the terms of the files. The orphans that the first
  loop can see are those of a name other than \<^verbatim>\<open>__proto__\<close>.
\<close>

lemma check_orphan:
  assumes typed: "well_typed this w"
    and ex: "\<exists>f \<in> set (tempModulesFiles this).
        orphaned this w f \<and> name_of (require w f) \<noteq> Some ''__proto__''"
  shows "\<exists>f \<in> set (tempModulesFiles this). orphaned this w f \<and>
           checkThatTempModulesMatch generator this w = (Inl (OrphanedTempModule f), w)"
proof -
  let ?ps = "projects (rushConfiguration this)"
  from dictionary [OF typed] obtain d where
    d1: "readTempModules (require w) (tempModulesFiles this) emptyObject = Inr d"
    and d2: "\<forall>n. map_of (own d) n =
       (if n = ''__proto__'' then None else map_option (info (require w)) (persisted this w n))"
    by (elim exE conjE)
  from ex obtain f where f: "f \<in> set (tempModulesFiles this)" "orphaned this w f"
    "name_of (require w f) \<noteq> Some ''__proto__''" by auto
  from orphaned_persisted [OF f] obtain n g where
    n: "n \<noteq> ''__proto__''" "persisted this w n = Some g" "\<not> foundMatchingProject ?ps n"
    by auto
  have "map_of (own d) n \<noteq> None" using d2 n(1,2) by simp
  then have "n \<in> fst ` set (own d)" by (simp add: map_of_eq_None_iff)
  then have "\<not> (\<forall>n \<in> fst ` set (own d). foundMatchingProject ?ps n)" using n(3) by blast
  then have "findOrphan ?ps d \<noteq> None" by (simp add: findOrphan_None)
  then obtain tm where tm: "findOrphan ?ps d = Some tm" by auto
  from findOrphan_Some [OF tm] obtain m where
    m: "map_of (own d) m = Some tm" "\<not> foundMatchingProject ?ps m" by auto
  have "m \<noteq> ''__proto__''" using m(1) d2 by auto
  then obtain h where h: "persisted this w m = Some h" "tm = info (require w) h"
    using m(1) d2 by auto
  from persisted_Some [OF h(1)] m(2) h(2)
  have o: "filename tm \<in> set (tempModulesFiles this)" "orphaned this w (filename tm)"
    by (simp_all add: info_def orphaned_def)
  have "checkThatTempModulesMatch generator this w = (Inl (OrphanedTempModule (filename tm)), w)"
    using tm d1 by (simp add: checkThatTempModulesMatch_def)
  with o show ?thesis by (intro bexI [of _ "filename tm"]) simp_all
qed

lemma check_without_orphans:
  assumes typed: "well_typed this w"
    and no: "\<not> (\<exists>f \<in> set (tempModulesFiles this).
        orphaned this w f \<and> name_of (require w f) \<noteq> Some ''__proto__'')"
    and plain: "\<forall>p \<in> set (projects (rushConfiguration this)).
        persisted this w (tempProjectName p) \<noteq> None \<or>
        (tempProjectName p \<notin> set (''__proto__'' # object_prototype_methods) \<and>
         persisted this w ''__proto__'' = None)"
  shows "checkThatTempModulesMatch generator this w =
     (case generator (rushConfiguration this) of
        Inl message \<Rightarrow> (Inl (ConfigError message), w)
      | Inr expected \<Rightarrow>
          (case find (\<lambda>p. \<not> passes this w expected p) (projects (rushConfiguration this)) of
             None \<Rightarrow> (Inr (), w)
           | Some p \<Rightarrow>
               (case persisted this w (tempProjectName p) of
                  None \<Rightarrow> (Inl (MissingTempModule (packageName p)), w)
                | Some f \<Rightarrow>
                    (Inl (Outdated (packageName p)),
                     w\<lparr>console := console w @ outdated_report expected p (require w f)\<rparr>))))"
proof -
  let ?ps = "projects (rushConfiguration this)"
  from dictionary [OF typed] obtain d where
    d1: "readTempModules (require w) (tempModulesFiles this) emptyObject = Inr d"
    and d2: "\<forall>n. map_of (own d) n =
       (if n = ''__proto__'' then None else map_option (info (require w)) (persisted this w n))"
    and d3: "prototype d = map_option (info (require w)) (persisted this w ''__proto__'')"
    by (elim exE conjE)
  have "\<forall>n \<in> fst ` set (own d). foundMatchingProject ?ps n"
  proof
    fix n assume "n \<in> fst ` set (own d)"
    then have "map_of (own d) n \<noteq> None" by (simp add: map_of_eq_None_iff)
    then have n: "n \<noteq> ''__proto__''" and "persisted this w n \<noteq> None"
      using d2 by (auto split: if_splits)
    then obtain g where g: "persisted this w n = Some g" by auto
    from persisted_Some [OF g] no n show "foundMatchingProject ?ps n"
      by (auto simp: orphaned_def)
  qed
  then have none: "findOrphan ?ps d = None" by (simp only: findOrphan_None)
  have look: "\<forall>p \<in> set ?ps. getProperty d (tempProjectName p) =
      (case persisted this w (tempProjectName p) of
         Some f \<Rightarrow> VInfo (info (require w) f)
       | None \<Rightarrow> VUndefined)"
  proof
    fix p assume "p \<in> set ?ps"
    with plain have "persisted this w (tempProjectName p) \<noteq> None \<or>
        (tempProjectName p \<notin> set (''__proto__'' # object_prototype_methods) \<and>
         persisted this w ''__proto__'' = None)" by (rule bspec)
    then show "getProperty d (tempProjectName p) =
      (case persisted this w (tempProjectName p) of
         Some f \<Rightarrow> VInfo (info (require w) f)
       | None \<Rightarrow> VUndefined)"
      using d2 d3 by (auto simp: getProperty_def inherited_def split: option.splits)
  qed
  show ?thesis
    using none d1 checkProjects_result [where ps = "?ps" and d = d and this = this and w = w and ?w0.0 = w, OF look]
    by (simp add: checkThatTempModulesMatch_def split: sum.splits)
qed

lemma passes_has_module:
  "passes this w expected p \<Longrightarrow>
   \<exists>f \<in> set (tempModulesFiles this). name_of (require w f) = Some (tempProjectName p)"
  using persisted_Some [of this w "tempProjectName p"]
  by (auto simp: passes_def split: option.splits)

lemma ordinary_names_plain:
  assumes "ordinary_names this w"
  shows "\<forall>f \<in> set (tempModulesFiles this). name_of (require w f) \<noteq> Some ''__proto__''"
    and "\<forall>p \<in> set (projects (rushConfiguration this)).
        persisted this w (tempProjectName p) \<noteq> None \<or>
        (tempProjectName p \<notin> set (''__proto__'' # object_prototype_methods) \<and>
         persisted this w ''__proto__'' = None)"
proof -
  show 1: "\<forall>f \<in> set (tempModulesFiles this). name_of (require w f) \<noteq> Some ''__proto__''"
    using assms by (simp add: ordinary_names_def list_all_iff)
  then have "persisted this w ''__proto__'' = None" by (simp only: persisted_None)
  moreover have "\<forall>p \<in> set (projects (rushConfiguration this)).
      tempProjectName p \<notin> set (''__proto__'' # object_prototype_methods)"
    using assms by (simp add: ordinary_names_def list_all_iff)
  ultimately show "\<forall>p \<in> set (projects (rushConfiguration this)).
        persisted this w (tempProjectName p) \<noteq> None \<or>
        (tempProjectName p \<notin> set (''__proto__'' # object_prototype_methods) \<and>
         persisted this w ''__proto__'' = None)"
    by blast
qed

text \<open>
  What the object used as a dictionary does on the other names. The file of a temp
  module named \<^verbatim>\<open>__proto__\<close> becomes the prototype of \<^verbatim>\<open>tempModules\<close> and is no key
  of it: the check passes although the module has no project. A temp project name that
  is a method of \<^verbatim>\<open>Object.prototype\<close> is found in every object: with no expected
  manifest for the project, the check passes although no temp module is persisted.
\<close>

lemma other_names:
  "well_typed (check_ex [file_a, file_b, file_p]) disk_proto
   \<and> orphaned (check_ex [file_a, file_b, file_p]) disk_proto file_p
   \<and> fst (checkThatTempModulesMatch generator_ex (check_ex [file_a, file_b, file_p]) disk_proto)
        = Inr ()
   \<and> persisted check_method disk_ex ''constructor'' = None
   \<and> fst (checkThatTempModulesMatch generator_ex check_method disk_ex) = Inr ()"
  by code_simp

text \<open>
  C6, as the code has it. On files that hold package manifests, with no temp module
  named \<^verbatim>\<open>__proto__\<close> and no temp project name that is a member of
  \<^verbatim>\<open>Object.prototype\<close>: the check changes nothing on disk. When it passes, every
  persisted temp module has a project of its name and every project has a persisted temp
  module of its temp project name (at least one: files of the same name are not told
  apart). A persisted temp module without a project makes it throw the orphan error,
  which names the file of such a module. When there is no orphan and the generator does
  not throw, and the first project in the order of the configuration that fails its
  check has no persisted temp module, it throws the error of the missing temp module,
  which names that project; and this error always names a project without a persisted
  temp module.
\<close>

theorem temp_modules_match:
  fixes this w
  defines "fs \<equiv> tempModulesFiles this"
  defines "ps \<equiv> projects (rushConfiguration this)"
  assumes typed: "well_typed this w"
    and ordinary: "ordinary_names this w"
    and run: "checkThatTempModulesMatch generator this w = (r, w')"
  shows "files w' = files w \<and> history w' = history w
     \<and> (r = Inr () \<longrightarrow>
          (\<forall>f \<in> set fs. \<exists>p \<in> set ps. name_of (require w f) = Some (tempProjectName p)) \<and>
          (\<forall>p \<in> set ps. \<exists>f \<in> set fs. name_of (require w f) = Some (tempProjectName p)))
     \<and> ((\<exists>f \<in> set fs. orphaned this w f)
          = (\<exists>f \<in> set fs. orphaned this w f \<and> r = Inl (OrphanedTempModule f)))
     \<and> (\<forall>f. r = Inl (OrphanedTempModule f) \<longrightarrow> f \<in> set fs \<and> orphaned this w f)
     \<and> (\<forall>expected p. \<not> (\<exists>f \<in> set fs. orphaned this w f) \<and>
            generator (rushConfiguration this) = Inr expected \<and>
            find (\<lambda>p. \<not> passes this w expected p) ps = Some p \<and>
            persisted this w (tempProjectName p) = None
          \<longrightarrow> r = Inl (MissingTempModule (packageName p)))
     \<and> (\<forall>n. r = Inl (MissingTempModule n) \<longrightarrow>
          (\<exists>p \<in> set ps. packageName p = n \<and>
             (\<forall>f \<in> set fs. name_of (require w f) \<noteq> Some (tempProjectName p))))"
proof (cases "\<exists>f \<in> set fs. orphaned this w f")
  case True
  then have "\<exists>f \<in> set (tempModulesFiles this).
      orphaned this w f \<and> name_of (require w f) \<noteq> Some ''__proto__''"
    using ordinary_names_plain(1) [OF ordinary] by (auto simp: fs_def)
  from check_orphan [OF typed this, of generator] run
  obtain f where f: "f \<in> set fs" "orphaned this w f" "r = Inl (OrphanedTempModule f)" "w' = w"
    by (auto simp: fs_def)
  show ?thesis using True f by auto
next
  case False
  then have no: "\<not> (\<exists>f \<in> set (tempModulesFiles this).
      orphaned this w f \<and> name_of (require w f) \<noteq> Some ''__proto__'')"
    by (auto simp: fs_def)
  note c = check_without_orphans [OF typed no ordinary_names_plain(2) [OF ordinary], of generator]
  have frame: "files w' = files w \<and> history w' = history w"
    using check_frame [OF run] .
  have typed': "\<forall>f \<in> set fs. \<exists>n. name_of (require w f) = Some n"
    using typed by (auto simp: well_typed_def list_all_iff fs_def)
  have matched: "\<forall>f \<in> set fs. \<exists>p \<in> set ps. name_of (require w f) = Some (tempProjectName p)"
  proof
    fix f assume f: "f \<in> set fs"
    then obtain n where n: "name_of (require w f) = Some n" using typed' by auto
    have "\<not> orphaned this w f" using False f by simp
    then have "foundMatchingProject ps n" using n by (simp add: orphaned_def ps_def)
    then show "\<exists>p \<in> set ps. name_of (require w f) = Some (tempProjectName p)"
      using n by (auto simp: foundMatchingProject_def list_ex_iff)
  qed
  show ?thesis
  proof (cases "generator (rushConfiguration this)")
    case (Inl message)
    then have "r = Inl (ConfigError message)" using c run by simp
    then show ?thesis using frame False Inl by simp
  next
    case (Inr expected)
    show ?thesis
    proof (cases "find (\<lambda>p. \<not> passes this w expected p) ps")
      case None
      then have r: "r = Inr ()" using c run Inr by (simp add: ps_def)
      have "\<forall>p \<in> set ps. passes this w expected p"
        using find_None_all [OF None] by simp
      then have "\<forall>p \<in> set ps. \<exists>f \<in> set fs. name_of (require w f) = Some (tempProjectName p)"
        using passes_has_module [of this w expected] by (simp add: fs_def)
      then show ?thesis using frame False Inr None r matched by simp
    next
      case (Some p)
      from find_SomeD [OF Some] have p: "p \<in> set ps" "\<not> passes this w expected p" by simp_all
      show ?thesis
      proof (cases "persisted this w (tempProjectName p)")
        case None
        then have r: "r = Inl (MissingTempModule (packageName p))"
          using c run Inr Some by (simp add: ps_def)
        have "\<forall>f \<in> set fs. name_of (require w f) \<noteq> Some (tempProjectName p)"
          using None by (simp add: persisted_None fs_def)
        then have "\<exists>q \<in> set ps. packageName q = packageName p \<and>
             (\<forall>f \<in> set fs. name_of (require w f) \<noteq> Some (tempProjectName q))"
          using p(1) by (intro bexI [of _ p]) simp_all
        then show ?thesis using frame False Inr Some r by simp
      next
        case (Some f)
        then have r: "r = Inl (Outdated (packageName p))"
          using c run Inr \<open>find (\<lambda>p. \<not> passes this w expected p) ps = Some p\<close>
          by (simp add: ps_def)
        show ?thesis using frame False Inr Some r
            \<open>find (\<lambda>p. \<not> passes this w expected p) ps = Some p\<close> by simp
      qed
    qed
  qed
qed

theorem temp_modules_match_witness:
  "well_typed (check_ex [file_a, file_b]) disk_ex
   \<and> ordinary_names (check_ex [file_a, file_b]) disk_ex
   \<and> fst (checkThatTempModulesMatch generator_ex (check_ex [file_a, file_b]) disk_ex) = Inr ()
   \<and> files (snd (checkThatTempModulesMatch generator_ex (check_ex [file_a, file_b]) disk_ex))
        = files disk_ex
   \<and> name_of (require disk_ex file_a) = Some (tempProjectName project_a)
   \<and> name_of (require disk_ex file_b) = Some (tempProjectName project_b)
   \<and> well_typed (check_ex [file_a, file_b, file_c]) disk_ex
   \<and> ordinary_names (check_ex [file_a, file_b, file_c]) disk_ex
   \<and> orphaned (check_ex [file_a, file_b, file_c]) disk_ex file_c
   \<and> fst (checkThatTempModulesMatch generator_ex (check_ex [file_a, file_b, file_c]) disk_ex)
        = Inl (OrphanedTempModule file_c)
   \<and> well_typed (check_ex [file_a]) disk_ex
   \<and> ordinary_names (check_ex [file_a]) disk_ex
   \<and> persisted (check_ex [file_a]) disk_ex (tempProjectName project_b) = None
   \<and> fst (checkThatTempModulesMatch generator_ex (check_ex [file_a]) disk_ex)
        = Inl (MissingTempModule ''b'')"
proof -
  let ?ok = "check_ex [file_a, file_b]" and ?orph = "check_ex [file_a, file_b, file_c]"
  let ?miss = "check_ex [file_a]"
  let ?expected = "[''a'' \<mapsto> manifest ''rush-a'' [(''d'', ''^1.2.0'')],
          ''b'' \<mapsto> manifest ''rush-b'' [(''d'', ''^1.2.0''), (''e'', ''~2.0.0'')]]"
  have typed: "well_typed ?ok disk_ex" "well_typed ?orph disk_ex" "well_typed ?miss disk_ex"
    by code_simp+
  have ord: "ordinary_names ?ok disk_ex" "ordinary_names ?orph disk_ex"
    "ordinary_names ?miss disk_ex"
    by code_simp+
  have names: "name_of (require disk_ex file_a) = Some (tempProjectName project_a)"
    "name_of (require disk_ex file_b) = Some (tempProjectName project_b)"
    by code_simp+
  have ok: "fst (checkThatTempModulesMatch generator_ex ?ok disk_ex) = Inr ()"
    by code_simp
  have orph: "orphaned ?orph disk_ex file_c" "file_c \<in> set (tempModulesFiles ?orph)"
    "\<not> orphaned ?orph disk_ex file_a" "\<not> orphaned ?orph disk_ex file_b"
    by code_simp+
  have fs: "tempModulesFiles ?orph = [file_a, file_b, file_c]" by (simp add: check_ex_def)
  have miss: "\<not> (\<exists>f \<in> set (tempModulesFiles ?miss). orphaned ?miss disk_ex f)"
    "persisted ?miss disk_ex (tempProjectName project_b) = None"
    "packageName project_b = ''b''"
    by code_simp+
  have gen: "generator_ex (rushConfiguration ?miss) = Inr ?expected"
    by (simp add: generator_ex_def)
  have first: "find (\<lambda>p. \<not> passes ?miss disk_ex ?expected p) (projects (rushConfiguration ?miss))
      = Some project_b"
    by (simp add: check_ex_def config_ex_def) code_simp
  have pair: "\<And>a. checkThatTempModulesMatch generator_ex a disk_ex
      = (fst (checkThatTempModulesMatch generator_ex a disk_ex),
         snd (checkThatTempModulesMatch generator_ex a disk_ex))"
    by simp
  note t1 = temp_modules_match [OF typed(1) ord(1) pair [of ?ok]]
  note t2 = temp_modules_match [OF typed(2) ord(2) pair [of ?orph]]
  note t3 = temp_modules_match [OF typed(3) ord(3) pair [of ?miss]]
  have 1: "files (snd (checkThatTempModulesMatch generator_ex ?ok disk_ex)) = files disk_ex"
    by (rule t1 [THEN conjunct1])
  have "\<exists>f \<in> set (tempModulesFiles ?orph). orphaned ?orph disk_ex f"
    using orph(1,2) by (rule bexI)
  then have "\<exists>f \<in> set (tempModulesFiles ?orph). orphaned ?orph disk_ex f \<and>
      fst (checkThatTempModulesMatch generator_ex ?orph disk_ex) = Inl (OrphanedTempModule f)"
    by (rule t2 [THEN conjunct2, THEN conjunct2, THEN conjunct2, THEN conjunct1, THEN iffD1])
  then obtain f where f: "f \<in> set (tempModulesFiles ?orph)" "orphaned ?orph disk_ex f"
    "fst (checkThatTempModulesMatch generator_ex ?orph disk_ex) = Inl (OrphanedTempModule f)"
    by (elim bexE conjE)
  from f(1) have "f = file_a \<or> f = file_b \<or> f = file_c" unfolding fs by simp
  with f(2) orph(3,4) have "f = file_c" by metis
  with f(3) have 2: "fst (checkThatTempModulesMatch generator_ex ?orph disk_ex)
      = Inl (OrphanedTempModule file_c)"
    by simp
  have "fst (checkThatTempModulesMatch generator_ex ?miss disk_ex)
      = Inl (MissingTempModule (packageName project_b))"
    apply (rule t3 [THEN conjunct2, THEN conjunct2, THEN conjunct2, THEN conjunct2,
          THEN conjunct2, THEN conjunct1, THEN spec, THEN spec, THEN mp,
          of ?expected project_b])
    apply (intro conjI)
       apply (rule miss(1))
      apply (rule gen)
     apply (rule first)
    apply (rule miss(2))
    done
  then have 3: "fst (checkThatTempModulesMatch generator_ex ?miss disk_ex)
      = Inl (MissingTempModule ''b'')"
    unfolding miss(3) .
  show ?thesis
    apply (intro conjI)
    apply (rule typed(1)) apply (rule ord(1)) apply (rule ok) apply (rule 1)
    apply (rule names(1)) apply (rule names(2)) apply (rule typed(2)) apply (rule ord(2))
    apply (rule orph(1)) apply (rule 2) apply (rule typed(3)) apply (rule ord(3))
    apply (rule miss(2)) apply (rule 3)
    done
qed

text \<open>
  C6 as it is stated fails on the uniqueness: two files hold a temp module of the name of
  project \<^verbatim>\<open>b\<close>, and the check passes.
\<close>

theorem temp_modules_match_counterexample:
  "well_typed (check_ex [file_a, file_b, file_b2]) disk_ex
   \<and> ordinary_names (check_ex [file_a, file_b, file_b2]) disk_ex
   \<and> fst (checkThatTempModulesMatch generator_ex (check_ex [file_a, file_b, file_b2]) disk_ex)
        = Inr ()
   \<and> file_b \<noteq> file_b2
   \<and> name_of (require disk_ex file_b) = Some (tempProjectName project_b)
   \<and> name_of (require disk_ex file_b2) = Some (tempProjectName project_b)
   \<and> length (filter (module_named disk_ex (tempProjectName project_b))
        (tempModulesFiles (check_ex [file_a, file_b, file_b2]))) = 2"
  by code_simp

lemma not_structurally_equal:
  assumes "wf_json e" "\<not> isEqual e a"
  shows "\<not> structurally_equal (Some e) a"
  using assms key_reordering_isEqual [of e a] by (auto simp: structurally_equal_def)

lemma checkProjects_first:
  "checkProjects d expected ps w =
     (case find (\<lambda>p. \<not> accepts d expected p) ps of
        None \<Rightarrow> (Inr (), w)
      | Some p \<Rightarrow>
          if \<not> truthy (getProperty d (tempProjectName p))
          then (Inl (MissingTempModule (packageName p)), w)
          else (Inl (Outdated (packageName p)),
                w\<lparr>console := console w @
                    [OutdatedMessage (packageName p), ExpectedManifest (expected (packageName p)),
                     ActualManifest (packageJsonOf (getProperty d (tempProjectName p)))]\<rparr>))"
  by (induction ps) (simp_all add: ret_def accepts_def Let_def)

text \<open>The check on well-typed files, in the terms of the object that it fills.\<close>

lemma check_object:
  assumes typed: "well_typed this w"
  shows "\<exists>d.
    (\<forall>n f. persisted this w n = Some f \<longrightarrow> getProperty d n = VInfo (info (require w) f)) \<and>
    ((\<not> (\<exists>f \<in> set (tempModulesFiles this). orphaned this w f)) \<longrightarrow>
       findOrphan (projects (rushConfiguration this)) d = None) \<and>
    checkThatTempModulesMatch generator this w =
      (case findOrphan (projects (rushConfiguration this)) d of
         Some tm \<Rightarrow> (Inl (OrphanedTempModule (filename tm)), w)
       | None \<Rightarrow>
           (case generator (rushConfiguration this) of
              Inl message \<Rightarrow> (Inl (ConfigError message), w)
            | Inr expected \<Rightarrow> checkProjects d expected (projects (rushConfiguration this)) w))"
proof -
  let ?ps = "projects (rushConfiguration this)"
  from dictionary [OF typed] obtain d where
    d1: "readTempModules (require w) (tempModulesFiles this) emptyObject = Inr d"
    and d2: "\<forall>n. map_of (own d) n =
       (if n = ''__proto__'' then None else map_option (info (require w)) (persisted this w n))"
    and d3: "prototype d = map_option (info (require w)) (persisted this w ''__proto__'')"
    by (elim exE conjE)
  have 1: "\<forall>n f. persisted this w n = Some f \<longrightarrow> getProperty d n = VInfo (info (require w) f)"
    using d2 d3 by (simp add: getProperty_def)
  have 2: "(\<not> (\<exists>f \<in> set (tempModulesFiles this). orphaned this w f)) \<longrightarrow> findOrphan ?ps d = None"
  proof
    assume no: "\<not> (\<exists>f \<in> set (tempModulesFiles this). orphaned this w f)"
    have "\<forall>n \<in> fst ` set (own d). foundMatchingProject ?ps n"
    proof
      fix n assume "n \<in> fst ` set (own d)"
      then have "map_of (own d) n \<noteq> None" by (simp add: map_of_eq_None_iff)
      then have "persisted this w n \<noteq> None" using d2 by (auto split: if_splits)
      then obtain g where g: "persisted this w n = Some g" by auto
      from persisted_Some [OF g] no show "foundMatchingProject ?ps n"
        by (auto simp: orphaned_def)
    qed
    then show "findOrphan ?ps d = None" by (simp only: findOrphan_None)
  qed
  have 3: "checkThatTempModulesMatch generator this w =
      (case findOrphan ?ps d of
         Some tm \<Rightarrow> (Inl (OrphanedTempModule (filename tm)), w)
       | None \<Rightarrow>
           (case generator (rushConfiguration this) of
              Inl message \<Rightarrow> (Inl (ConfigError message), w)
            | Inr expected \<Rightarrow> checkProjects d expected ?ps w))"
    using d1 by (simp add: checkThatTempModulesMatch_def)
  show ?thesis
    apply (rule exI [of _ d])
    apply (intro conjI)
      apply (rule 1)
     apply (rule 2)
    apply (rule 3)
    done
qed

lemma accepts_persisted:
  assumes "getProperty d (tempProjectName p) = VInfo (info (require w) f)"
    and "case expected (packageName p) of None \<Rightarrow> True | Some e \<Rightarrow> wf_json e"
  shows "accepts d expected p = structurally_equal (expected (packageName p)) (require w f)"
  using assms
  by (simp add: accepts_def isEqualOrUndefined_def structurally_equal_def info_def
      isEqual_iff_key_reordering split: option.splits)

text \<open>
  C7, as the code has it. On files that hold package manifests and expected manifests
  that are JSON values. The projects are checked in the order of the configuration,
  after the orphans and after the generator. When there is no orphan, the generator does
  not throw, every project before \<open>p\<close> has a persisted temp module structurally equal to
  the expected one, and the persisted temp module of \<open>p\<close> is found and is not
  structurally equal to the expected one, the check throws the error of an outdated temp
  module, which names \<open>p\<close>, and the console got the message with the name of the
  project, the expected and the actual manifest just before. A project whose persisted
  temp module is found and is not structurally equal to the expected one keeps the check
  from passing, wherever it stands. An error of an outdated temp module names a project
  of the configuration: the persisted temp modules that were found for the projects
  before it are structurally equal to the expected ones, and its own, when it was found,
  is not, and is printed with the expected one. The check only reads the disk: it throws
  and repairs nothing.
\<close>

theorem drift_detection:
  fixes this w
  defines "fs \<equiv> tempModulesFiles this"
  defines "ps \<equiv> projects (rushConfiguration this)"
  assumes typed: "well_typed this w"
    and json: "wf_expected generator this"
    and run: "checkThatTempModulesMatch generator this w = (r, w')"
  shows "(\<forall>expected before p after f.
            \<not> (\<exists>f \<in> set fs. orphaned this w f) \<and>
            generator (rushConfiguration this) = Inr expected \<and>
            ps = before @ p # after \<and> (\<forall>q \<in> set before. in_sync this w expected q) \<and>
            persisted this w (tempProjectName p) = Some f \<and>
            \<not> structurally_equal (expected (packageName p)) (require w f)
          \<longrightarrow> r = Inl (Outdated (packageName p)) \<and>
              console w' = console w @
                [OutdatedMessage (packageName p), ExpectedManifest (expected (packageName p)),
                 ActualManifest (Some (require w f))])
     \<and> (\<forall>expected p f.
            generator (rushConfiguration this) = Inr expected \<and> p \<in> set ps \<and>
            persisted this w (tempProjectName p) = Some f \<and>
            \<not> structurally_equal (expected (packageName p)) (require w f)
          \<longrightarrow> r \<noteq> Inr ())
     \<and> (\<forall>n. r = Inl (Outdated n) \<longrightarrow>
          (\<exists>expected before p after.
             generator (rushConfiguration this) = Inr expected \<and>
             ps = before @ p # after \<and> packageName p = n \<and>
             (\<forall>q \<in> set before. \<forall>f. persisted this w (tempProjectName q) = Some f \<longrightarrow>
                structurally_equal (expected (packageName q)) (require w f)) \<and>
             (\<forall>f. persisted this w (tempProjectName p) = Some f \<longrightarrow>
                \<not> structurally_equal (expected n) (require w f) \<and>
                console w' = console w @
                  [OutdatedMessage n, ExpectedManifest (expected n),
                   ActualManifest (Some (require w f))])))
     \<and> files w' = files w \<and> history w' = history w"
proof -
  from check_object [OF typed, of generator] obtain d where
    look: "\<forall>n f. persisted this w n = Some f \<longrightarrow> getProperty d n = VInfo (info (require w) f)"
    and orph: "(\<not> (\<exists>f \<in> set (tempModulesFiles this). orphaned this w f)) \<longrightarrow> findOrphan ps d = None"
    and chk: "checkThatTempModulesMatch generator this w =
      (case findOrphan ps d of
         Some tm \<Rightarrow> (Inl (OrphanedTempModule (filename tm)), w)
       | None \<Rightarrow>
           (case generator (rushConfiguration this) of
              Inl message \<Rightarrow> (Inl (ConfigError message), w)
            | Inr expected \<Rightarrow> checkProjects d expected ps w))"
    unfolding ps_def by (elim exE conjE)
  have frame: "files w' = files w \<and> history w' = history w"
    using check_frame [OF run] .
  have wfe: "\<And>expected p. generator (rushConfiguration this) = Inr expected \<Longrightarrow> p \<in> set ps \<Longrightarrow>
      (case expected (packageName p) of None \<Rightarrow> True | Some e \<Rightarrow> wf_json e)"
    using json by (simp add: wf_expected_def list_all_iff ps_def)
  have acc: "\<And>expected p f. generator (rushConfiguration this) = Inr expected \<Longrightarrow> p \<in> set ps \<Longrightarrow>
      persisted this w (tempProjectName p) = Some f \<Longrightarrow>
      accepts d expected p = structurally_equal (expected (packageName p)) (require w f)"
  proof -
    fix expected p f
    assume a: "generator (rushConfiguration this) = Inr expected" "p \<in> set ps"
      "persisted this w (tempProjectName p) = Some f"
    have "getProperty d (tempProjectName p) = VInfo (info (require w) f)" using look a(3) by simp
    then show "accepts d expected p = structurally_equal (expected (packageName p)) (require w f)"
      using wfe [OF a(1,2)] by (rule accepts_persisted)
  qed
  have A: "\<forall>expected before p after f.
            \<not> (\<exists>f \<in> set fs. orphaned this w f) \<and>
            generator (rushConfiguration this) = Inr expected \<and>
            ps = before @ p # after \<and> (\<forall>q \<in> set before. in_sync this w expected q) \<and>
            persisted this w (tempProjectName p) = Some f \<and>
            \<not> structurally_equal (expected (packageName p)) (require w f)
          \<longrightarrow> r = Inl (Outdated (packageName p)) \<and>
              console w' = console w @
                [OutdatedMessage (packageName p), ExpectedManifest (expected (packageName p)),
                 ActualManifest (Some (require w f))]"
  proof (intro allI impI, elim conjE)
    fix expected before p after f
    assume a: "\<not> (\<exists>f \<in> set fs. orphaned this w f)"
      "generator (rushConfiguration this) = Inr expected" "ps = before @ p # after"
      "\<forall>q \<in> set before. in_sync this w expected q"
      "persisted this w (tempProjectName p) = Some f"
      "\<not> structurally_equal (expected (packageName p)) (require w f)"
    have none: "findOrphan ps d = None" using orph a(1) by (simp add: fs_def)
    have p: "p \<in> set ps" using a(3) by simp
    have np: "\<not> accepts d expected p" using acc [OF a(2) p a(5)] a(6) by simp
    have before: "\<forall>q \<in> set before. \<not> \<not> accepts d expected q"
    proof
      fix q assume q: "q \<in> set before"
      then have qs: "q \<in> set ps" using a(3) by simp
      have "in_sync this w expected q" using a(4) q by (rule bspec)
      then obtain g where g: "persisted this w (tempProjectName q) = Some g"
        "structurally_equal (expected (packageName q)) (require w g)"
        by (auto simp: in_sync_def split: option.splits)
      show "\<not> \<not> accepts d expected q" using acc [OF a(2) qs g(1)] g(2) by simp
    qed
    have "find (\<lambda>p. \<not> accepts d expected p) ps = Some p"
      unfolding find_first using a(3) np before by blast
    moreover have "getProperty d (tempProjectName p) = VInfo (info (require w) f)"
      using look a(5) by simp
    ultimately have "checkProjects d expected ps w =
        (Inl (Outdated (packageName p)),
         w\<lparr>console := console w @
             [OutdatedMessage (packageName p), ExpectedManifest (expected (packageName p)),
              ActualManifest (Some (require w f))]\<rparr>)"
      by (simp add: checkProjects_first info_def)
    then have "(r, w') = (Inl (Outdated (packageName p)),
         w\<lparr>console := console w @
             [OutdatedMessage (packageName p), ExpectedManifest (expected (packageName p)),
              ActualManifest (Some (require w f))]\<rparr>)"
      using chk run none a(2) by simp
    then show "r = Inl (Outdated (packageName p)) \<and>
              console w' = console w @
                [OutdatedMessage (packageName p), ExpectedManifest (expected (packageName p)),
                 ActualManifest (Some (require w f))]"
      by simp
  qed
  have B: "\<forall>expected p f.
            generator (rushConfiguration this) = Inr expected \<and> p \<in> set ps \<and>
            persisted this w (tempProjectName p) = Some f \<and>
            \<not> structurally_equal (expected (packageName p)) (require w f)
          \<longrightarrow> r \<noteq> Inr ()"
  proof (intro allI impI, elim conjE)
    fix expected p f
    assume a: "generator (rushConfiguration this) = Inr expected" "p \<in> set ps"
      "persisted this w (tempProjectName p) = Some f"
      "\<not> structurally_equal (expected (packageName p)) (require w f)"
    have np: "\<not> accepts d expected p" using acc [OF a(1,2,3)] a(4) by simp
    have "find (\<lambda>p. \<not> accepts d expected p) ps \<noteq> None"
      using a(2) np by (auto simp: find_None_iff)
    then have "fst (checkProjects d expected ps w) \<noteq> Inr ()"
      by (auto simp: checkProjects_first split: if_splits)
    then show "r \<noteq> Inr ()"
    proof (cases "findOrphan ps d")
      case None
      assume ne: "fst (checkProjects d expected ps w) \<noteq> Inr ()"
      have "checkProjects d expected ps w = (r, w')" using chk run None a(1) by simp
      then have "fst (checkProjects d expected ps w) = r" by simp
      then show ?thesis using ne by simp
    next
      case (Some tm)
      then show ?thesis using chk run by simp
    qed
  qed
  have C: "\<forall>n. r = Inl (Outdated n) \<longrightarrow>
          (\<exists>expected before p after.
             generator (rushConfiguration this) = Inr expected \<and>
             ps = before @ p # after \<and> packageName p = n \<and>
             (\<forall>q \<in> set before. \<forall>f. persisted this w (tempProjectName q) = Some f \<longrightarrow>
                structurally_equal (expected (packageName q)) (require w f)) \<and>
             (\<forall>f. persisted this w (tempProjectName p) = Some f \<longrightarrow>
                \<not> structurally_equal (expected n) (require w f) \<and>
                console w' = console w @
                  [OutdatedMessage n, ExpectedManifest (expected n),
                   ActualManifest (Some (require w f))]))"
  proof (intro allI impI)
    fix n assume r: "r = Inl (Outdated n)"
    have none: "findOrphan ps d = None"
      using chk run r by (cases "findOrphan ps d") auto
    obtain expected where gen: "generator (rushConfiguration this) = Inr expected"
      using chk run r none by (cases "generator (rushConfiguration this)") auto
    have cp: "checkProjects d expected ps w = (r, w')" using chk run none gen by simp
    obtain p where p: "find (\<lambda>p. \<not> accepts d expected p) ps = Some p"
      using cp r by (cases "find (\<lambda>p. \<not> accepts d expected p) ps") (auto simp: checkProjects_first)
    have res: "n = packageName p"
      "w' = w\<lparr>console := console w @
             [OutdatedMessage (packageName p), ExpectedManifest (expected (packageName p)),
              ActualManifest (packageJsonOf (getProperty d (tempProjectName p)))]\<rparr>"
      using cp r p by (auto simp: checkProjects_first split: if_splits)
    from p [unfolded find_first] obtain before after where
      split: "ps = before @ p # after" "\<not> accepts d expected p"
      "\<forall>q \<in> set before. \<not> \<not> accepts d expected q"
      by (elim exE conjE)
    have pin: "p \<in> set ps" using split(1) by simp
    have 1: "\<forall>q \<in> set before. \<forall>f. persisted this w (tempProjectName q) = Some f \<longrightarrow>
                structurally_equal (expected (packageName q)) (require w f)"
    proof (intro ballI allI impI)
      fix q f assume q: "q \<in> set before" and f: "persisted this w (tempProjectName q) = Some f"
      have qs: "q \<in> set ps" using split(1) q by simp
      have "accepts d expected q" using split(3) q by simp
      then show "structurally_equal (expected (packageName q)) (require w f)"
        using acc [OF gen qs f] by simp
    qed
    have 2: "\<forall>f. persisted this w (tempProjectName p) = Some f \<longrightarrow>
                \<not> structurally_equal (expected n) (require w f) \<and>
                console w' = console w @
                  [OutdatedMessage n, ExpectedManifest (expected n),
                   ActualManifest (Some (require w f))]"
    proof (intro allI impI)
      fix f assume f: "persisted this w (tempProjectName p) = Some f"
      have g: "getProperty d (tempProjectName p) = VInfo (info (require w) f)"
        using look f by simp
      have "\<not> structurally_equal (expected (packageName p)) (require w f)"
        using acc [OF gen pin f] split(2) by simp
      moreover have "console w' = console w @
                  [OutdatedMessage (packageName p), ExpectedManifest (expected (packageName p)),
                   ActualManifest (Some (require w f))]"
        using res(2) g by (simp add: info_def)
      ultimately show "\<not> structurally_equal (expected n) (require w f) \<and>
                console w' = console w @
                  [OutdatedMessage n, ExpectedManifest (expected n),
                   ActualManifest (Some (require w f))]"
        unfolding res(1) by simp
    qed
    have "generator (rushConfiguration this) = Inr expected \<and>
             ps = before @ p # after \<and> packageName p = n \<and>
             (\<forall>q \<in> set before. \<forall>f. persisted this w (tempProjectName q) = Some f \<longrightarrow>
                structurally_equal (expected (packageName q)) (require w f)) \<and>
             (\<forall>f. persisted this w (tempProjectName p) = Some f \<longrightarrow>
                \<not> structurally_equal (expected n) (require w f) \<and>
                console w' = console w @
                  [OutdatedMessage n, ExpectedManifest (expected n),
                   ActualManifest (Some (require w f))])"
      using gen split(1) res(1) 1 2 by simp
    then show "\<exists>expected before p after.
             generator (rushConfiguration this) = Inr expected \<and>
             ps = before @ p # after \<and> packageName p = n \<and>
             (\<forall>q \<in> set before. \<forall>f. persisted this w (tempProjectName q) = Some f \<longrightarrow>
                structurally_equal (expected (packageName q)) (require w f)) \<and>
             (\<forall>f. persisted this w (tempProjectName p) = Some f \<longrightarrow>
                \<not> structurally_equal (expected n) (require w f) \<and>
                console w' = console w @
                  [OutdatedMessage n, ExpectedManifest (expected n),
                   ActualManifest (Some (require w f))])"
      by blast
  qed
  show ?thesis
    apply (intro conjI)
        apply (rule A)
       apply (rule B)
      apply (rule C)
     apply (rule frame [THEN conjunct1])
    apply (rule frame [THEN conjunct2])
    done
qed

theorem drift_detection_witness:
  "well_typed (check_ex [file_a, file_b]) disk_ex
   \<and> wf_expected generator_changed (check_ex [file_a, file_b])
   \<and> generator_changed config_ex = Inr expected_changed
   \<and> expected_changed ''a'' = Some (manifest ''rush-a'' [(''d'', ''^1.3.0'')])
   \<and> persisted (check_ex [file_a, file_b]) disk_ex (tempProjectName project_a) = Some file_a
   \<and> require disk_ex file_a = manifest ''rush-a'' [(''d'', ''^1.2.0'')]
   \<and> \<not> structurally_equal (expected_changed ''a'') (require disk_ex file_a)
   \<and> fst (checkThatTempModulesMatch generator_changed (check_ex [file_a, file_b]) disk_ex)
        = Inl (Outdated ''a'')
   \<and> console (snd (checkThatTempModulesMatch generator_changed (check_ex [file_a, file_b]) disk_ex))
        = [OutdatedMessage ''a'',
           ExpectedManifest (Some (manifest ''rush-a'' [(''d'', ''^1.3.0'')])),
           ActualManifest (Some (manifest ''rush-a'' [(''d'', ''^1.2.0'')]))]
   \<and> files (snd (checkThatTempModulesMatch generator_changed (check_ex [file_a, file_b]) disk_ex))
        = files disk_ex"
proof -
  let ?act = "check_ex [file_a, file_b]"
  let ?run = "checkThatTempModulesMatch generator_changed ?act disk_ex"
  have typed: "well_typed ?act disk_ex" by code_simp
  have gen: "generator_changed (rushConfiguration ?act) = Inr expected_changed"
    "generator_changed config_ex = Inr expected_changed"
    by (simp_all add: generator_changed_def)
  have ex: "expected_changed ''a'' = Some (manifest ''rush-a'' [(''d'', ''^1.3.0'')])"
    "expected_changed ''b'' = Some (manifest ''rush-b'' [(''d'', ''^1.2.0''), (''e'', ''~2.0.0'')])"
    by (simp_all add: expected_changed_def)
  have wfa: "wf_json (manifest ''rush-a'' [(''d'', ''^1.3.0'')])"
    and wfb: "wf_json (manifest ''rush-b'' [(''d'', ''^1.2.0''), (''e'', ''~2.0.0'')])"
    by code_simp+
  have json: "wf_expected generator_changed ?act"
    unfolding wf_expected_def gen(1)
    by (simp add: check_ex_def config_ex_def project_a_def project_b_def ex wfa wfb)
  have no: "\<not> (\<exists>f \<in> set (tempModulesFiles ?act). orphaned ?act disk_ex f)" by code_simp
  have ps: "projects (rushConfiguration ?act) = [] @ project_a # [project_b]"
    by (simp add: check_ex_def config_ex_def)
  have before: "\<forall>q \<in> set []. in_sync ?act disk_ex expected_changed q" by simp
  have per: "persisted ?act disk_ex (tempProjectName project_a) = Some file_a" by code_simp
  have pn: "packageName project_a = ''a''" by code_simp
  have con: "console disk_ex = []" by code_simp
  have req: "require disk_ex file_a = manifest ''rush-a'' [(''d'', ''^1.2.0'')]" by code_simp
  have "\<not> isEqual (manifest ''rush-a'' [(''d'', ''^1.3.0'')]) (require disk_ex file_a)"
    by code_simp
  with wfa have "\<not> structurally_equal (Some (manifest ''rush-a'' [(''d'', ''^1.3.0'')]))
      (require disk_ex file_a)"
    by (rule not_structurally_equal)
  then have ne: "\<not> structurally_equal (expected_changed ''a'') (require disk_ex file_a)"
    unfolding ex .
  then have ne': "\<not> structurally_equal (expected_changed (packageName project_a))
      (require disk_ex file_a)"
    unfolding pn .
  have pair: "?run = (fst ?run, snd ?run)" by simp
  note d = drift_detection [OF typed json pair]
  have "fst ?run = Inl (Outdated (packageName project_a)) \<and>
      console (snd ?run) = console disk_ex @
        [OutdatedMessage (packageName project_a),
         ExpectedManifest (expected_changed (packageName project_a)),
         ActualManifest (Some (require disk_ex file_a))]"
    apply (rule d [THEN conjunct1, THEN spec, THEN spec, THEN spec, THEN spec,
          THEN spec, THEN mp, of expected_changed "[]" project_a "[project_b]" file_a])
    apply (intro conjI)
         apply (rule no)
        apply (rule gen(1))
       apply (rule ps)
      apply (rule before)
     apply (rule per)
    apply (rule ne')
    done
  then have 1: "fst ?run = Inl (Outdated ''a'')"
    and 2: "console (snd ?run) = [OutdatedMessage ''a'',
           ExpectedManifest (Some (manifest ''rush-a'' [(''d'', ''^1.3.0'')])),
           ActualManifest (Some (manifest ''rush-a'' [(''d'', ''^1.2.0'')]))]"
    unfolding pn con req ex by simp_all
  have 3: "files (snd ?run) = files disk_ex"
    by (rule d [THEN conjunct2, THEN conjunct2, THEN conjunct2, THEN conjunct1])
  show ?thesis
    apply (intro conjI)
    apply (rule typed) apply (rule json) apply (rule gen(2)) apply (rule ex(1))
    apply (rule per) apply (rule req) apply (rule ne) apply (rule 1) apply (rule 2)
    apply (rule 3)
    done
qed

text \<open>
  C7 as it is stated fails when another error comes first. The persisted temp module of
  project \<^verbatim>\<open>a\<close> is found and is not structurally equal to the expected one, but a
  file of no project is there: the check throws the orphan error. The persisted temp
  module of project \<^verbatim>\<open>b\<close> is found and is not structurally equal to the expected one,
  but project \<^verbatim>\<open>a\<close>, which comes first, has no temp module: the check throws the error
  of the missing temp module, which names \<^verbatim>\<open>a\<close>.
\<close>

theorem drift_detection_counterexample:
  "well_typed (check_ex [file_a, file_b, file_c]) disk_ex
   \<and> wf_expected generator_changed (check_ex [file_a, file_b, file_c])
   \<and> generator_changed config_ex = Inr expected_changed
   \<and> persisted (check_ex [file_a, file_b, file_c]) disk_ex (tempProjectName project_a)
        = Some file_a
   \<and> \<not> structurally_equal (expected_changed (packageName project_a)) (require disk_ex file_a)
   \<and> fst (checkThatTempModulesMatch generator_changed (check_ex [file_a, file_b, file_c]) disk_ex)
        = Inl (OrphanedTempModule file_c)
   \<and> well_typed (check_ex [file_b]) disk_ex
   \<and> wf_expected generator_changed_b (check_ex [file_b])
   \<and> generator_changed_b config_ex = Inr expected_changed_b
   \<and> persisted (check_ex [file_b]) disk_ex (tempProjectName project_b) = Some file_b
   \<and> \<not> structurally_equal (expected_changed_b (packageName project_b)) (require disk_ex file_b)
   \<and> fst (checkThatTempModulesMatch generator_changed_b (check_ex [file_b]) disk_ex)
        = Inl (MissingTempModule ''a'')"
proof -
  have ea: "expected_changed (packageName project_a) = Some (manifest ''rush-a'' [(''d'', ''^1.3.0'')])"
    and eb: "expected_changed_b (packageName project_b)
        = Some (manifest ''rush-b'' [(''d'', ''^1.3.0''), (''e'', ''~2.0.0'')])"
    by (simp_all add: expected_changed_def expected_changed_b_def project_a_def project_b_def)
  have a: "\<not> structurally_equal (expected_changed (packageName project_a)) (require disk_ex file_a)"
    unfolding ea by (rule not_structurally_equal) code_simp+
  have b: "\<not> structurally_equal (expected_changed_b (packageName project_b)) (require disk_ex file_b)"
    unfolding eb by (rule not_structurally_equal) code_simp+
  have g: "generator_changed config_ex = Inr expected_changed"
    "generator_changed_b config_ex = Inr expected_changed_b"
    by (simp_all add: generator_changed_def generator_changed_b_def)
  have wf: "wf_json (manifest ''rush-a'' [(''d'', ''^1.3.0'')])"
    "wf_json (manifest ''rush-b'' [(''d'', ''^1.2.0''), (''e'', ''~2.0.0'')])"
    "wf_json (manifest ''rush-a'' [(''d'', ''^1.2.0'')])"
    "wf_json (manifest ''rush-b'' [(''d'', ''^1.3.0''), (''e'', ''~2.0.0'')])"
    by code_simp+
  have j: "wf_expected generator_changed (check_ex [file_a, file_b, file_c])"
    "wf_expected generator_changed_b (check_ex [file_b])"
    by (simp_all add: wf_expected_def generator_changed_def generator_changed_b_def
        expected_changed_def expected_changed_b_def check_ex_def config_ex_def project_a_def
        project_b_def wf)
  have 1: "well_typed (check_ex [file_a, file_b, file_c]) disk_ex"
    "persisted (check_ex [file_a, file_b, file_c]) disk_ex (tempProjectName project_a)
        = Some file_a"
    "fst (checkThatTempModulesMatch generator_changed (check_ex [file_a, file_b, file_c]) disk_ex)
        = Inl (OrphanedTempModule file_c)"
    by code_simp+
  have 2: "well_typed (check_ex [file_b]) disk_ex"
    "persisted (check_ex [file_b]) disk_ex (tempProjectName project_b) = Some file_b"
    "fst (checkThatTempModulesMatch generator_changed_b (check_ex [file_b]) disk_ex)
        = Inl (MissingTempModule ''a'')"
    by code_simp+
  show ?thesis
    apply (intro conjI)
    apply (rule 1(1)) apply (rule j(1)) apply (rule g(1)) apply (rule 1(2))
    apply (rule a) apply (rule 1(3)) apply (rule 2(1)) apply (rule j(2))
    apply (rule g(2)) apply (rule 2(2)) apply (rule b) apply (rule 2(3))
    done
qed

text \<open>
  C10. The comparison of the check is \<^verbatim>\<open>_.isEqual\<close>, which does not look at the order of
  the keys: an expected manifest and a persisted one that differ by the order of their
  keys only, at any depth, are equal for it. So, on files that hold package manifests,
  with no orphan and a generator that does not throw: when every project has a persisted
  temp module that is the expected one up to the order of the keys, every project passes
  and the check returns, with nothing printed and nothing changed.
\<close>

theorem key_order_insensitive:
  assumes typed: "well_typed this w"
    and no_orphan: "\<not> (\<exists>f \<in> set (tempModulesFiles this). orphaned this w f)"
    and gen: "generator (rushConfiguration this) = Inr expected"
    and same: "\<forall>p \<in> set (projects (rushConfiguration this)).
        \<exists>f e. persisted this w (tempProjectName p) = Some f \<and>
              expected (packageName p) = Some e \<and> wf_json e \<and> key_reordering e (require w f)"
  shows "(\<forall>p \<in> set (projects (rushConfiguration this)). passes this w expected p)
     \<and> checkThatTempModulesMatch generator this w = (Inr (), w)"
proof -
  have all: "\<forall>p \<in> set (projects (rushConfiguration this)). passes this w expected p"
  proof
    fix p assume "p \<in> set (projects (rushConfiguration this))"
    with same obtain f e where f: "persisted this w (tempProjectName p) = Some f"
      and e: "expected (packageName p) = Some e" "wf_json e" "key_reordering e (require w f)"
      by blast
    from e(3,2) have "isEqual e (require w f)" by (rule key_reordering_isEqual)
    then show "passes this w expected p" using f e(1) by (simp add: passes_def matches_def)
  qed
  then have none: "find (\<lambda>p. \<not> passes this w expected p) (projects (rushConfiguration this)) = None"
    by (simp add: find_None_iff)
  have no: "\<not> (\<exists>f \<in> set (tempModulesFiles this).
      orphaned this w f \<and> name_of (require w f) \<noteq> Some ''__proto__'')"
    using no_orphan by blast
  have plain: "\<forall>p \<in> set (projects (rushConfiguration this)).
        persisted this w (tempProjectName p) \<noteq> None \<or>
        (tempProjectName p \<notin> set (''__proto__'' # object_prototype_methods) \<and>
         persisted this w ''__proto__'' = None)"
  proof
    fix p assume "p \<in> set (projects (rushConfiguration this))"
    with same obtain f where "persisted this w (tempProjectName p) = Some f" by blast
    then show "persisted this w (tempProjectName p) \<noteq> None \<or>
        (tempProjectName p \<notin> set (''__proto__'' # object_prototype_methods) \<and>
         persisted this w ''__proto__'' = None)"
      by simp
  qed
  have "checkThatTempModulesMatch generator this w = (Inr (), w)"
    using check_without_orphans [OF typed no plain, of generator] gen none by simp
  with all show ?thesis by simp
qed

theorem key_order_insensitive_witness:
  "well_typed (check_ex [file_a, file_b2]) disk_ex
   \<and> require disk_ex file_b2 = manifest_b_reordered
   \<and> manifest_b_reordered \<noteq> manifest ''rush-b'' [(''d'', ''^1.2.0''), (''e'', ''~2.0.0'')]
   \<and> key_reordering (manifest ''rush-b'' [(''d'', ''^1.2.0''), (''e'', ''~2.0.0'')])
        manifest_b_reordered
   \<and> persisted (check_ex [file_a, file_b2]) disk_ex (tempProjectName project_b) = Some file_b2
   \<and> passes (check_ex [file_a, file_b2]) disk_ex
        [''a'' \<mapsto> manifest ''rush-a'' [(''d'', ''^1.2.0'')],
         ''b'' \<mapsto> manifest ''rush-b'' [(''d'', ''^1.2.0''), (''e'', ''~2.0.0'')]] project_b
   \<and> checkThatTempModulesMatch generator_ex (check_ex [file_a, file_b2]) disk_ex
        = (Inr (), disk_ex)"
proof -
  let ?act = "check_ex [file_a, file_b2]"
  let ?a = "manifest ''rush-a'' [(''d'', ''^1.2.0'')]"
  let ?b = "manifest ''rush-b'' [(''d'', ''^1.2.0''), (''e'', ''~2.0.0'')]"
  let ?expected = "[''a'' \<mapsto> ?a, ''b'' \<mapsto> ?b]"
  have typed: "well_typed ?act disk_ex" by code_simp
  have no: "\<not> (\<exists>f \<in> set (tempModulesFiles ?act). orphaned ?act disk_ex f)" by code_simp
  have gen: "generator_ex (rushConfiguration ?act) = Inr ?expected"
    by (simp add: generator_ex_def)
  have ps: "projects (rushConfiguration ?act) = [project_a, project_b]"
    by (simp add: check_ex_def config_ex_def)
  have per: "persisted ?act disk_ex (tempProjectName project_a) = Some file_a"
    "persisted ?act disk_ex (tempProjectName project_b) = Some file_b2"
    by code_simp+
  have ex: "?expected (packageName project_a) = Some ?a" "?expected (packageName project_b) = Some ?b"
    by (simp_all add: project_a_def project_b_def)
  have wf: "wf_json ?a" "wf_json ?b" by code_simp+
  have req: "require disk_ex file_a = ?a" "require disk_ex file_b2 = manifest_b_reordered"
    by code_simp+
  have ne: "manifest_b_reordered \<noteq> ?b" by code_simp
  have deps: "key_reordering (JObj [(''d'', JStr ''^1.2.0''), (''e'', JStr ''~2.0.0'')])
      (JObj [(''e'', JStr ''~2.0.0''), (''d'', JStr ''^1.2.0'')])"
    by (rule kr_obj [where ps' = "[(''d'', JStr ''^1.2.0''), (''e'', JStr ''~2.0.0'')]"])
      (simp_all add: key_reordering_refl)
  have kb: "key_reordering ?b manifest_b_reordered"
    unfolding manifest_def manifest_b_reordered_def
    by (rule kr_obj [where ps' = "[(''name'', JStr ''rush-b''), (''version'', JStr ''0.0.0''),
          (''private'', JBool True),
          (''dependencies'', JObj [(''e'', JStr ''~2.0.0''), (''d'', JStr ''^1.2.0'')])]"])
      (simp_all add: key_reordering_refl deps)
  have ka: "key_reordering ?a (require disk_ex file_a)"
    unfolding req by (rule key_reordering_refl)
  have same: "\<forall>p \<in> set (projects (rushConfiguration ?act)).
      \<exists>f e. persisted ?act disk_ex (tempProjectName p) = Some f \<and>
        ?expected (packageName p) = Some e \<and> wf_json e \<and> key_reordering e (require disk_ex f)"
    unfolding ps
  proof (intro ballI)
    fix p assume "p \<in> set [project_a, project_b]"
    then consider "p = project_a" | "p = project_b" by auto
    then show "\<exists>f e. persisted ?act disk_ex (tempProjectName p) = Some f \<and>
        ?expected (packageName p) = Some e \<and> wf_json e \<and> key_reordering e (require disk_ex f)"
    proof cases
      case 1
      show ?thesis unfolding 1
        apply (rule exI [of _ file_a]) apply (rule exI [of _ ?a])
        apply (intro conjI) apply (rule per(1)) apply (rule ex(1)) apply (rule wf(1))
        apply (rule ka) done
    next
      case 2
      show ?thesis unfolding 2
        apply (rule exI [of _ file_b2]) apply (rule exI [of _ ?b])
        apply (intro conjI) apply (rule per(2)) apply (rule ex(2)) apply (rule wf(2))
        apply (unfold req(2)) apply (rule kb) done
    qed
  qed
  note k = key_order_insensitive [where this = ?act and w = disk_ex and generator = generator_ex
      and expected = ?expected, OF typed no gen same]
  have pb: "passes ?act disk_ex ?expected project_b"
    by (rule k [THEN conjunct1, unfolded ps, THEN bspec]) simp
  show ?thesis
    apply (intro conjI)
    apply (rule typed) apply (rule req(2)) apply (rule ne) apply (rule kb) apply (rule per(2))
    apply (rule pb) apply (rule k [THEN conjunct2])
    done
qed

end
